(* ===== verification/Gateway_Prelude.thy ===== *)
theory Gateway_Prelude
  imports Main "HOL-Library.Word" "HOL-Library.Sublist" "HOL-Library.Code_Target_Nat"
begin

text \<open>
  Shared vocabulary of the development: Rust's \<open>str\<close> as the list of its UTF-8 bytes, the string
  operations of the standard library that the gateway calls (search, slicing at a found offset,
  trimming, case mapping, formatting and parsing of integers), UTF-8 validity, and the error type of
  the wire protocol library. Offsets are byte offsets, as in Rust.
\<close>

section \<open>Collections\<close>

named_theorems rust_str \<open>facts about the string operations\<close>
named_theorems rust_num \<open>facts about formatting and parsing of integers\<close>

section \<open>Strings as UTF-8 bytes\<close>

type_synonym str = string

abbreviation byte :: "char \<Rightarrow> nat" where
  "byte c \<equiv> of_char c"

abbreviation chr_of :: "nat \<Rightarrow> char" where
  "chr_of n \<equiv> char_of n"

definition bytes :: "nat list \<Rightarrow> str" where
  "bytes ns = map char_of ns"

definition is_ascii :: "str \<Rightarrow> bool" where
  "is_ascii s \<longleftrightarrow> list_all (\<lambda>c. byte c < 128) s"

text \<open>\<open>str::starts_with\<close>, \<open>str::ends_with\<close> with a string pattern.\<close>

definition starts_with :: "str \<Rightarrow> str \<Rightarrow> bool" where
  "starts_with s p \<longleftrightarrow> prefix p s"

definition ends_with :: "str \<Rightarrow> str \<Rightarrow> bool" where
  "ends_with s p \<longleftrightarrow> prefix (rev p) (rev s)"

text \<open>\<open>str::find\<close> with a string pattern: the byte offset of the first match.\<close>

fun find_sub :: "str \<Rightarrow> str \<Rightarrow> nat option" where
  "find_sub p [] = (if p = [] then Some 0 else None)"
| "find_sub p (c # cs) = (if prefix p (c # cs) then Some 0 else map_option Suc (find_sub p cs))"

definition contains :: "str \<Rightarrow> str \<Rightarrow> bool" where
  "contains s p \<longleftrightarrow> find_sub p s \<noteq> None"

text \<open>\<open>str::find\<close> and \<open>str::rfind\<close> with a single ASCII character.\<close>

fun find_char :: "char \<Rightarrow> str \<Rightarrow> nat option" where
  "find_char x [] = None"
| "find_char x (c # cs) = (if c = x then Some 0 else map_option Suc (find_char x cs))"

fun rfind_char :: "char \<Rightarrow> str \<Rightarrow> nat option" where
  "rfind_char x [] = None"
| "rfind_char x (c # cs) =
     (case rfind_char x cs of Some i \<Rightarrow> Some (Suc i) | None \<Rightarrow> (if c = x then Some 0 else None))"

section \<open>White space\<close>

text \<open>
  \<open>char::is_whitespace\<close> is the Unicode property White\_Space. \<open>ws_len s\<close> is the number of bytes of
  the white-space character that starts \<open>s\<close>, 0 when \<open>s\<close> does not start with one; \<open>ws_len_end\<close> reads
  the reversed bytes, for trimming from the right.
\<close>

definition ws_multi :: "nat list list" where
  "ws_multi =
     [[0xC2, 0x85], [0xC2, 0xA0], [0xE1, 0x9A, 0x80]] @
     map (\<lambda>b. [0xE2, 0x80, b]) [0x80 ..< 0x8B] @
     [[0xE2, 0x80, 0xA8], [0xE2, 0x80, 0xA9], [0xE2, 0x80, 0xAF], [0xE2, 0x81, 0x9F],
      [0xE3, 0x80, 0x80]]"

definition ws_ascii :: "char \<Rightarrow> bool" where
  "ws_ascii c \<longleftrightarrow> (9 \<le> byte c \<and> byte c \<le> 13) \<or> byte c = 32"

definition ws_len_of :: "nat list list \<Rightarrow> str \<Rightarrow> nat" where
  "ws_len_of tab s =
     (case s of
        [] \<Rightarrow> 0
      | c # cs \<Rightarrow>
          if ws_ascii c then 1
          else if byte c < 128 then 0
          else (case List.find (\<lambda>w. prefix w (map byte (take 3 s))) tab of
                  Some w \<Rightarrow> length w
                | None \<Rightarrow> 0))"

definition ws_len :: "str \<Rightarrow> nat" where
  "ws_len = ws_len_of ws_multi"

definition ws_len_end :: "str \<Rightarrow> nat" where
  "ws_len_end = ws_len_of (map rev ws_multi)"

text \<open>Strip matches of a length function from the front; \<open>str::trim_start\<close>, \<open>trim_end\<close>, \<open>trim\<close>.\<close>

function strip_front :: "(str \<Rightarrow> nat) \<Rightarrow> str \<Rightarrow> str" where
  "strip_front f s = (if s = [] \<or> f s = 0 then s else strip_front f (drop (f s) s))"
  by pat_completeness auto
termination
  by (relation "measure (\<lambda>(f, s). length s)") auto

declare strip_front.simps [simp del]

definition trim_start :: "str \<Rightarrow> str" where
  "trim_start s = strip_front ws_len s"

definition trim_end :: "str \<Rightarrow> str" where
  "trim_end s = rev (strip_front ws_len_end (rev s))"

definition trim :: "str \<Rightarrow> str" where
  "trim s = trim_end (trim_start s)"

text \<open>\<open>str::trim_end_matches\<close> with a single ASCII character.\<close>

definition trim_end_matches :: "char \<Rightarrow> str \<Rightarrow> str" where
  "trim_end_matches c s = rev (dropWhile (\<lambda>x. x = c) (rev s))"

section \<open>Case mapping\<close>

definition ascii_upper :: "char \<Rightarrow> char" where
  "ascii_upper c = (if 97 \<le> byte c \<and> byte c \<le> 122 then char_of (byte c - 32) else c)"

definition ascii_lower :: "char \<Rightarrow> char" where
  "ascii_lower c = (if 65 \<le> byte c \<and> byte c \<le> 90 then char_of (byte c + 32) else c)"

definition to_ascii_uppercase :: "str \<Rightarrow> str" where
  "to_ascii_uppercase s = map ascii_upper s"

definition to_ascii_lowercase :: "str \<Rightarrow> str" where
  "to_ascii_lowercase s = map ascii_lower s"

definition eq_ignore_ascii_case :: "str \<Rightarrow> str \<Rightarrow> bool" where
  "eq_ignore_ascii_case s t \<longleftrightarrow> to_ascii_lowercase s = to_ascii_lowercase t"

text \<open>
  \<open>str::to_uppercase\<close> and \<open>to_lowercase\<close> apply Unicode's full case mapping. Every call of the
  gateway compares the result with ASCII text, so the model maps exactly the characters whose image
  contains an ASCII character: the ASCII letters and the entries of the two tables below
  (Unicode's CaseMapping data: dotless i, long s, sharp s, the Latin ligatures, the letters with a
  combining mark, the Kelvin sign, capital dotted I). Other characters keep their bytes: their image
  has no ASCII character either, so no comparison with ASCII text can tell the difference.
\<close>

definition upper_special :: "(nat list \<times> nat list) list" where
  "upper_special =
     [([0xC3, 0x9F], [0x53, 0x53]),
      ([0xC4, 0xB1], [0x49]),
      ([0xC5, 0x89], [0xCA, 0xBC, 0x4E]),
      ([0xC5, 0xBF], [0x53]),
      ([0xC7, 0xB0], [0x4A, 0xCC, 0x8C]),
      ([0xE1, 0xBA, 0x96], [0x48, 0xCC, 0xB1]),
      ([0xE1, 0xBA, 0x97], [0x54, 0xCC, 0x88]),
      ([0xE1, 0xBA, 0x98], [0x57, 0xCC, 0x8A]),
      ([0xE1, 0xBA, 0x99], [0x59, 0xCC, 0x8A]),
      ([0xE1, 0xBA, 0x9A], [0x41, 0xCA, 0xBE]),
      ([0xEF, 0xAC, 0x80], [0x46, 0x46]),
      ([0xEF, 0xAC, 0x81], [0x46, 0x49]),
      ([0xEF, 0xAC, 0x82], [0x46, 0x4C]),
      ([0xEF, 0xAC, 0x83], [0x46, 0x46, 0x49]),
      ([0xEF, 0xAC, 0x84], [0x46, 0x46, 0x4C]),
      ([0xEF, 0xAC, 0x85], [0x53, 0x54]),
      ([0xEF, 0xAC, 0x86], [0x53, 0x54])]"

definition lower_special :: "(nat list \<times> nat list) list" where
  "lower_special = [([0xC4, 0xB0], [0x69, 0xCC, 0x87]), ([0xE2, 0x84, 0xAA], [0x6B])]"

definition special_case :: "(nat list \<times> nat list) list \<Rightarrow> str \<Rightarrow> (nat list \<times> nat list) option" where
  "special_case tab s = List.find (\<lambda>(k, v). prefix k (map byte (take 3 s))) tab"

fun case_map :: "(nat list \<times> nat list) list \<Rightarrow> (char \<Rightarrow> char) \<Rightarrow> str \<Rightarrow> str" where
  "case_map tab f [] = []"
| "case_map tab f (c # cs) =
     (if byte c < 128 then f c # case_map tab f cs
      else case special_case tab (c # cs) of
             Some (k, v) \<Rightarrow> bytes v @ case_map tab f (drop (length k - 1) cs)
           | None \<Rightarrow> c # case_map tab f cs)"

definition to_uppercase :: "str \<Rightarrow> str" where
  "to_uppercase s = case_map upper_special ascii_upper s"

definition to_lowercase :: "str \<Rightarrow> str" where
  "to_lowercase s = case_map lower_special ascii_lower s"

section \<open>UTF-8\<close>

definition is_cont :: "char \<Rightarrow> bool" where
  "is_cont c \<longleftrightarrow> 128 \<le> byte c \<and> byte c < 192"

definition utf8_width :: "nat \<Rightarrow> nat" where
  "utf8_width b =
     (if b < 128 then 1
      else if 194 \<le> b \<and> b \<le> 223 then 2
      else if 224 \<le> b \<and> b \<le> 239 then 3
      else if 240 \<le> b \<and> b \<le> 244 then 4
      else 0)"

text \<open>The second byte is restricted after E0, ED, F0 and F4 (no overlong forms, no surrogates).\<close>

definition utf8_second_ok :: "nat \<Rightarrow> str \<Rightarrow> bool" where
  "utf8_second_ok b cs \<longleftrightarrow>
     (case cs of
        [] \<Rightarrow> True
      | c # _ \<Rightarrow>
          (b = 0xE0 \<longrightarrow> 0xA0 \<le> byte c) \<and> (b = 0xED \<longrightarrow> byte c < 0xA0) \<and>
          (b = 0xF0 \<longrightarrow> 0x90 \<le> byte c) \<and> (b = 0xF4 \<longrightarrow> byte c < 0x90))"

fun utf8 :: "str \<Rightarrow> bool" where
  "utf8 [] = True"
| "utf8 (c # cs) =
     (let w = utf8_width (byte c) in
      0 < w \<and> w - 1 \<le> length cs \<and> list_all is_cont (take (w - 1) cs) \<and>
      utf8_second_ok (byte c) cs \<and> utf8 (drop (w - 1) cs))"

text \<open>\<open>str::is_char_boundary\<close>.\<close>

definition is_char_boundary :: "str \<Rightarrow> nat \<Rightarrow> bool" where
  "is_char_boundary s i \<longleftrightarrow>
     i = 0 \<or> i = length s \<or> (i < length s \<and> \<not> is_cont (s ! i))"

section \<open>Integers as text\<close>

definition digit_char :: "nat \<Rightarrow> char" where
  "digit_char d = char_of (48 + d)"

definition is_digit :: "char \<Rightarrow> bool" where
  "is_digit c \<longleftrightarrow> 48 \<le> byte c \<and> byte c \<le> 57"

definition digit_val :: "char \<Rightarrow> nat" where
  "digit_val c = byte c - 48"

fun nat_to_str :: "nat \<Rightarrow> str" where
  "nat_to_str n = (if n < 10 then [digit_char n] else nat_to_str (n div 10) @ [digit_char (n mod 10)])"

declare nat_to_str.simps [simp del]

definition int_to_str :: "int \<Rightarrow> str" where
  "int_to_str i = (if i < 0 then CHR ''-'' # nat_to_str (nat (- i)) else nat_to_str (nat i))"

text \<open>The formatter's zero padding, \<open>{:02}\<close> and \<open>{:06}\<close>.\<close>

definition pad_zeros :: "nat \<Rightarrow> str \<Rightarrow> str" where
  "pad_zeros w s = replicate (w - length s) (CHR ''0'') @ s"

definition digits_val :: "str \<Rightarrow> nat" where
  "digits_val s = foldl (\<lambda>a c. 10 * a + digit_val c) 0 s"

text \<open>\<open>str::parse\<close> for \<open>i64\<close> and \<open>u64\<close>: an optional sign, at least one digit, digits only, in range.\<close>

definition parse_digits :: "str \<Rightarrow> nat option" where
  "parse_digits s = (if s \<noteq> [] \<and> list_all is_digit s then Some (digits_val s) else None)"

definition in_i64 :: "int \<Rightarrow> bool" where
  "in_i64 i \<longleftrightarrow> - (2 ^ 63) \<le> i \<and> i < 2 ^ 63"

definition parse_i64 :: "str \<Rightarrow> int option" where
  "parse_i64 s =
     (let signed = (case s of
        [] \<Rightarrow> None
      | c # cs \<Rightarrow>
          if c = CHR ''-'' then map_option (\<lambda>n. - int n) (parse_digits cs)
          else if c = CHR ''+'' then map_option int (parse_digits cs)
          else map_option int (parse_digits s))
      in case signed of
           Some i \<Rightarrow> if in_i64 i then Some i else None
         | None \<Rightarrow> None)"

definition parse_u64 :: "str \<Rightarrow> nat option" where
  "parse_u64 s =
     (let unsigned = (case s of
        [] \<Rightarrow> None
      | c # cs \<Rightarrow> if c = CHR ''+'' then parse_digits cs else parse_digits s)
      in case unsigned of
           Some n \<Rightarrow> if n < 2 ^ 64 then Some n else None
         | None \<Rightarrow> None)"

section \<open>Errors of the wire protocol library\<close>

text \<open>
  The error values the gateway builds and matches on: \<open>PgWireError::UserError\<close> with its
  \<open>ErrorInfo\<close>, \<open>ApiError\<close>, \<open>InvalidPassword\<close>; \<open>WireError\<close> stands for the remaining constructors,
  which the gateway only propagates.
\<close>

record error_info =
  severity :: str
  code :: str
  message :: str

datatype pgwire_error =
    UserError error_info
  | ApiError str
  | InvalidPassword str
  | WireError str

type_synonym 'a pg_result = "pgwire_error + 'a"

section \<open>Lemmas: searching and trimming\<close>

lemma find_sub_SomeD:
  assumes "find_sub p s = Some i"
  shows "i + length p \<le> length s" and "prefix p (drop i s)" and "\<And>j. j < i \<Longrightarrow> \<not> prefix p (drop j s)"
proof -
  have "i + length p \<le> length s \<and> prefix p (drop i s) \<and> (\<forall>j<i. \<not> prefix p (drop j s))"
    using assms
  proof (induction p s arbitrary: i rule: find_sub.induct)
    case (1 p)
    then show ?case by (auto split: if_splits)
  next
    case (2 p c cs)
    show ?case
    proof (cases "prefix p (c # cs)")
      case True
      with "2.prems" show ?thesis using prefix_length_le [OF True] by simp
    next
      case False
      with "2.prems" obtain k where k: "find_sub p cs = Some k" "i = Suc k" by auto
      with "2.IH" [OF False k(1)] False show ?thesis
        by (auto simp: less_Suc_eq_0_disj)
    qed
  qed
  then show "i + length p \<le> length s" "prefix p (drop i s)" "\<And>j. j < i \<Longrightarrow> \<not> prefix p (drop j s)"
    by blast+
qed

lemma find_sub_None_iff [rust_str]: "find_sub p s = None \<longleftrightarrow> \<not> sublist p s"
  by (induction p s rule: find_sub.induct) (auto simp: sublist_Cons_right)

lemma contains_iff_sublist [rust_str]: "contains s p \<longleftrightarrow> sublist p s"
  by (simp add: contains_def find_sub_None_iff)

lemma find_sub_split:
  assumes "find_sub p s = Some i"
  shows "s = take i s @ p @ drop (i + length p) s"
proof -
  from find_sub_SomeD(2) [OF assms] obtain r where r: "drop i s = p @ r" by (auto simp: prefix_def)
  then have "drop (i + length p) s = r"
    by (metis add.commute append_eq_conv_conj drop_drop)
  with r show ?thesis by (metis append_take_drop_id)
qed

lemma find_sub_append:
  assumes "\<not> sublist p (a @ butlast p)" and "p \<noteq> []"
  shows "find_sub p (a @ p @ r) = Some (length a)"
  using assms(1)
proof (induction a)
  case Nil
  then show ?case using assms(2) by (cases p) simp_all
next
  case (Cons c a)
  have "\<not> prefix p (c # a @ p @ r)"
  proof
    assume "prefix p (c # a @ p @ r)"
    moreover have "prefix (c # a @ butlast p) (c # a @ p @ r)"
      by (simp add: prefix_append) (metis append_butlast_last_id assms(2) append.assoc prefixI)
    ultimately have "prefix p (c # a @ butlast p)" by (rule prefix_length_prefix) simp
    with Cons.prems show False by (metis append_Cons prefix_imp_sublist)
  qed
  moreover have "\<not> sublist p (a @ butlast p)" using Cons.prems by (simp add: sublist_Cons_right)
  ultimately show ?case using Cons.IH by simp
qed

lemma find_sub_unique_end:
  assumes "find_sub p s = Some i" and "p \<noteq> []"
  shows "\<not> sublist p (butlast (take (i + length p) s))"
proof
  assume "sublist p (butlast (take (i + length p) s))"
  then obtain a b where ab: "butlast (take (i + length p) s) = a @ p @ b" by (auto simp: sublist_def)
  have "length (a @ p @ b) \<le> i + length p - 1" unfolding ab [symmetric] by simp
  then have a: "length a < i" using assms(2) by (cases p) auto
  have "prefix (a @ p @ b) s" using ab by (metis prefix_order.trans prefixeq_butlast take_is_prefix)
  then obtain r where "s = a @ p @ b @ r" by (auto simp: prefix_def)
  then have "drop (length a) s = p @ b @ r" by simp
  then have "prefix p (drop (length a) s)" by simp
  with a show False using find_sub_SomeD(3) [OF assms(1)] by blast
qed

lemma find_sub_first:
  assumes "find_sub p s = Some i" and "p \<noteq> []"
  shows "\<not> sublist p (take i s)"
proof
  assume "sublist p (take i s)"
  then obtain a b where ab: "take i s = a @ p @ b" by (auto simp: sublist_def)
  then have "length a + length p \<le> i"
    by (metis add.assoc le_add1 length_append length_take min.boundedE)
  then have "length a < i" using assms(2) by (cases p) auto
  moreover have "prefix p (drop (length a) s)"
  proof -
    have "s = a @ p @ b @ drop i s" using ab by (metis append_assoc append_take_drop_id)
    then have "drop (length a) s = p @ b @ drop i s" by (metis append_eq_conv_conj)
    then show ?thesis by simp
  qed
  ultimately show False using find_sub_SomeD(3) [OF assms(1)] by blast
qed

lemma find_char_SomeD:
  assumes "find_char x s = Some i"
  shows "i < length s" and "s ! i = x" and "x \<notin> set (take i s)"
  using assms
  by (induction x s arbitrary: i rule: find_char.induct) (auto split: if_splits)

lemma find_char_append [rust_str]: "x \<notin> set a \<Longrightarrow> find_char x (a @ x # b) = Some (length a)"
  by (induction a) auto

lemma find_char_None_iff [rust_str]: "find_char x s = None \<longleftrightarrow> x \<notin> set s"
  by (induction s) auto

lemma rfind_char_None_iff [rust_str]: "rfind_char x s = None \<longleftrightarrow> x \<notin> set s"
  by (induction s) (auto split: option.splits)

lemma rfind_char_append [rust_str]: "x \<notin> set b \<Longrightarrow> rfind_char x (a @ x # b) = Some (length a)"
proof (induction a)
  case Nil
  then have "rfind_char x b = None" by (simp add: rfind_char_None_iff)
  then show ?case by simp
next
  case (Cons c a)
  then show ?case by simp
qed

lemma strip_front_suffix: "suffix (strip_front f s) s"
proof (induction f s rule: strip_front.induct)
  case (1 f s)
  show ?case
  proof (cases "s = [] \<or> f s = 0")
    case True
    then show ?thesis by (simp add: strip_front.simps [of f s])
  next
    case False
    then have "strip_front f s = strip_front f (drop (f s) s)" by (simp add: strip_front.simps [of f s])
    with "1.IH" [OF False] show ?thesis using suffix_order.trans suffix_drop by metis
  qed
qed

lemma strip_front_stop: "strip_front f s = [] \<or> f (strip_front f s) = 0"
proof (induction f s rule: strip_front.induct)
  case (1 f s)
  show ?case
  proof (cases "s = [] \<or> f s = 0")
    case True
    then show ?thesis by (auto simp: strip_front.simps [of f s])
  next
    case False
    then have "strip_front f s = strip_front f (drop (f s) s)" by (simp add: strip_front.simps [of f s])
    with "1.IH" [OF False] show ?thesis by simp
  qed
qed

lemma strip_front_id [simp]: "f s = 0 \<Longrightarrow> strip_front f s = s"
  by (subst strip_front.simps) simp

lemma trim_start_suffix: "suffix (trim_start s) s"
  by (simp add: trim_start_def strip_front_suffix)

lemma trim_end_prefix: "prefix (trim_end s) s"
  using strip_front_suffix [of ws_len_end "rev s"] by (simp add: trim_end_def suffix_to_prefix)

lemma trim_sublist [rust_str]: "sublist (trim s) s"
proof -
  have "sublist (trim_end (trim_start s)) (trim_start s)" by (simp add: trim_end_prefix prefix_imp_sublist)
  moreover have "sublist (trim_start s) s" by (simp add: trim_start_suffix suffix_imp_sublist)
  ultimately show ?thesis unfolding trim_def by (rule sublist_order.order.trans)
qed

lemma trim_id [rust_str]: "ws_len s = 0 \<Longrightarrow> ws_len_end (rev s) = 0 \<Longrightarrow> trim s = s"
  by (simp add: trim_def trim_start_def trim_end_def)

lemma case_map_ascii: "is_ascii s \<Longrightarrow> case_map tab f s = map f s"
  by (induction s) (auto simp: is_ascii_def)

lemma to_uppercase_ascii [rust_str]: "is_ascii s \<Longrightarrow> to_uppercase s = to_ascii_uppercase s"
  by (simp add: to_uppercase_def to_ascii_uppercase_def case_map_ascii)

lemma to_lowercase_ascii [rust_str]: "is_ascii s \<Longrightarrow> to_lowercase s = to_ascii_lowercase s"
  by (simp add: to_lowercase_def to_ascii_lowercase_def case_map_ascii)


section \<open>Lemmas: UTF-8\<close>

lemma utf8_append: "utf8 a \<Longrightarrow> utf8 (a @ b) \<longleftrightarrow> utf8 b"
proof (induction a rule: utf8.induct)
  case 1
  then show ?case by simp
next
  case (2 c cs)
  let ?w = "utf8_width (byte c)"
  from "2.prems" have w: "0 < ?w" "?w - 1 \<le> length cs" "list_all is_cont (take (?w - 1) cs)"
    "utf8_second_ok (byte c) cs" "utf8 (drop (?w - 1) cs)"
    by (auto simp: Let_def)
  have "utf8_second_ok (byte c) (cs @ b)"
  proof (cases cs)
    case Nil
    with w(2) have "byte c < 128" 
      using w(1) by (auto simp: utf8_width_def split: if_splits)
    then show ?thesis by (auto simp: utf8_second_ok_def split: list.splits)
  next
    case (Cons d ds)
    with w(4) show ?thesis by (simp add: utf8_second_ok_def)
  qed
  with w "2.IH" [OF refl w(5)] show ?case
    by (simp add: Let_def)
qed

lemma utf8_split:
  assumes "utf8 (a @ b)" and "b = [] \<or> \<not> is_cont (hd b)"
  shows "utf8 a \<and> utf8 b"
  using assms
proof (induction a rule: utf8.induct)
  case 1
  then show ?case by simp
next
  case (2 c cs)
  let ?w = "utf8_width (byte c)"
  from "2.prems" have w: "0 < ?w" "?w - 1 \<le> length (cs @ b)" "list_all is_cont (take (?w - 1) (cs @ b))"
    "utf8_second_ok (byte c) (cs @ b)" "utf8 (drop (?w - 1) (cs @ b))"
    by (auto simp: Let_def)
  have len: "?w - 1 \<le> length cs"
  proof (rule ccontr)
    assume "\<not> ?w - 1 \<le> length cs"
    with w(2) obtain x b' where b: "b = x # b'" and k: "0 < ?w - 1 - length cs"
      by (cases b) auto
    then have "hd b \<in> set (take (?w - 1) (cs @ b))"
      by (auto simp: take_Cons' simp del: One_nat_def)
    with w(3) "2.prems"(2) b show False by (auto simp: list_all_iff)
  qed
  have "utf8_second_ok (byte c) cs"
    using w(4) by (cases cs) (auto simp: utf8_second_ok_def)
  with len w "2.IH" [OF refl _ "2.prems"(2)] show ?case
    by (simp add: Let_def)
qed

lemma ascii_not_cont: "byte c < 128 \<Longrightarrow> \<not> is_cont c"
  by (simp add: is_cont_def)

lemma utf8_ascii: "is_ascii s \<Longrightarrow> utf8 s"
  by (induction s) (auto simp: is_ascii_def utf8_width_def utf8_second_ok_def split: list.splits)

section \<open>Lemmas: integers as text\<close>

lemma digit_char_facts [simp]:
  "d < 10 \<Longrightarrow> is_digit (digit_char d)" "d < 10 \<Longrightarrow> digit_val (digit_char d) = d"
  by (simp_all add: is_digit_def digit_val_def digit_char_def)

lemma nat_to_str_digits: "list_all is_digit (nat_to_str n)"
proof (induction n rule: nat_to_str.induct)
  case (1 n)
  then show ?case by (cases "n < 10") (simp_all add: nat_to_str.simps [of n])
qed

lemma nat_to_str_nonempty [simp]: "nat_to_str n \<noteq> []"
  by (subst nat_to_str.simps) simp

lemma digits_val_snoc: "digits_val (s @ [c]) = 10 * digits_val s + digit_val c"
  by (simp add: digits_val_def)

lemma digits_val_nat_to_str: "digits_val (nat_to_str n) = n"
proof (induction n rule: nat_to_str.induct)
  case (1 n)
  show ?case
  proof (cases "n < 10")
    case True
    then show ?thesis by (simp add: nat_to_str.simps [of n] digits_val_def)
  next
    case False
    with "1.IH" show ?thesis by (simp add: nat_to_str.simps [of n] digits_val_snoc)
  qed
qed

lemma parse_digits_nat_to_str [rust_num]: "parse_digits (nat_to_str n) = Some n"
  by (simp add: parse_digits_def nat_to_str_digits digits_val_nat_to_str)

lemma nat_to_str_head: "nat_to_str n = c # cs \<Longrightarrow> is_digit c"
  using nat_to_str_digits [of n] by simp

lemma parse_i64_int_to_str [rust_num]: "in_i64 i \<Longrightarrow> parse_i64 (int_to_str i) = Some i"
proof (cases "i < 0")
  case True
  assume "in_i64 i"
  with True show ?thesis by (simp add: parse_i64_def int_to_str_def parse_digits_nat_to_str)
next
  case False
  assume i: "in_i64 i"
  obtain c cs where c: "nat_to_str (nat i) = c # cs" by (cases "nat_to_str (nat i)") auto
  with nat_to_str_head have "is_digit c" by blast
  then have "c \<noteq> CHR ''-''" "c \<noteq> CHR ''+''" by (auto simp: is_digit_def)
  with False i c parse_digits_nat_to_str [of "nat i"] show ?thesis
    by (simp add: parse_i64_def int_to_str_def)
qed

lemma nat_to_str_length: "n < 10 ^ Suc k \<Longrightarrow> length (nat_to_str n) \<le> Suc k"
proof (induction k arbitrary: n)
  case 0
  then show ?case by (simp add: nat_to_str.simps [of n])
next
  case (Suc k)
  then have "n div 10 < 10 ^ Suc k" by (simp add: less_mult_imp_div_less mult.commute)
  with Suc.IH [of "n div 10"] show ?case by (simp add: nat_to_str.simps [of n])
qed

lemma digits_val_zeros: "digits_val (replicate k (CHR ''0'') @ s) = digits_val s"
  by (induction k) (simp_all add: digits_val_def digit_val_def)

lemma digits_val_pad [rust_num]: "digits_val (pad_zeros w (nat_to_str n)) = n"
  by (simp add: pad_zeros_def digits_val_zeros digits_val_nat_to_str)

lemma pad_zeros_digits [rust_num]: "list_all is_digit (pad_zeros w (nat_to_str n))"
  by (simp add: pad_zeros_def nat_to_str_digits) (simp add: list_all_iff is_digit_def)

lemma pad_zeros_length [rust_num]: "n < 10 ^ Suc k \<Longrightarrow> length (pad_zeros (Suc k) (nat_to_str n)) = Suc k"
  using nat_to_str_length [of n k] by (simp add: pad_zeros_def)

section \<open>Printing and parsing\<close>

text \<open>
  The contract of a text form: what is printed is read back, and what is read is a value of the type.
  Then texts identify values, and reading, printing and reading again is stable. The integers of the
  standard library, doubles and the cells of the encoder are instances.
\<close>

locale text_codec =
  fixes print :: "'a \<Rightarrow> str" and parse :: "str \<Rightarrow> 'a option" and valid :: "'a \<Rightarrow> bool"
  assumes read_printed: "valid x \<Longrightarrow> parse (print x) = Some x"
    and read_valid: "parse s = Some x \<Longrightarrow> valid x"
begin

lemma print_inj: "valid x \<Longrightarrow> valid y \<Longrightarrow> print x = print y \<Longrightarrow> x = y"
  by (metis read_printed option.inject)

lemma reread: "parse s = Some x \<Longrightarrow> parse (print x) = Some x"
  by (rule read_printed [OF read_valid])

lemma valid_iff_read: "valid x \<longleftrightarrow> (\<exists>s. parse s = Some x)"
  using read_printed read_valid by blast

end

lemma parse_i64_in: "parse_i64 s = Some i \<Longrightarrow> in_i64 i"
  by (auto simp: parse_i64_def Let_def split: option.splits if_splits)

lemma parse_u64_nat_to_str: "n < 2 ^ 64 \<Longrightarrow> parse_u64 (nat_to_str n) = Some n"
proof (cases "nat_to_str n")
  case (Cons c cs)
  then have "is_digit c" by (rule nat_to_str_head)
  then have "c \<noteq> CHR ''+''" by (auto simp: is_digit_def)
  moreover assume "n < 2 ^ 64"
  ultimately show ?thesis using Cons parse_digits_nat_to_str [of n] by (simp add: parse_u64_def Let_def)
qed simp

interpretation i64: text_codec int_to_str parse_i64 in_i64
  by unfold_locales (simp_all add: parse_i64_int_to_str parse_i64_in)

interpretation u64: text_codec nat_to_str parse_u64 "\<lambda>n. n < 2 ^ 64"
  by unfold_locales (auto simp: parse_u64_nat_to_str, auto simp: parse_u64_def Let_def split: option.splits if_splits)

section \<open>Ranked steps\<close>

text \<open>Steps that lower a rank: their sequences are bounded by it, and each can be extended to one that ends.\<close>

locale ranked_steps =
  fixes step :: "'a \<Rightarrow> 'a \<Rightarrow> bool" and rank :: "'a \<Rightarrow> nat"
  assumes decreases: "step s t \<Longrightarrow> rank t < rank s"
begin

lemma bounded: "(step ^^ n) s t \<Longrightarrow> n + rank t \<le> rank s"
  by (induction n arbitrary: t) (fastforce dest: decreases)+

lemma ends: "\<exists>t. step\<^sup>*\<^sup>* s t \<and> (\<nexists>u. step t u)"
proof (induction "rank s" arbitrary: s rule: less_induct)
  case less
  show ?case
  proof (cases "\<exists>t. step s t")
    case True
    then obtain t where t: "step s t" by blast
    from less [OF decreases [OF t]] t show ?thesis by (meson converse_rtranclp_into_rtranclp)
  qed blast
qed

end

section \<open>Lemmas: slices and trimmed strings stay valid UTF-8\<close>

lemma utf8_at_ascii:
  assumes "utf8 (a @ c # b)" and "byte c < 128"
  shows "utf8 a" and "utf8 b"
proof -
  from utf8_split [OF assms(1)] assms(2) have "utf8 a" "utf8 (c # b)"
    by (simp_all add: ascii_not_cont)
  then show "utf8 a" "utf8 b"
    using assms(2) by (simp_all add: Let_def utf8_width_def)
qed

lemma utf8_find:
  assumes s: "utf8 s" and f: "find_sub p s = Some i" and p: "is_ascii p" "p \<noteq> []"
  shows "utf8 (take i s)" and "utf8 (drop (i + length p) s)"
proof -
  have "utf8 (take i s @ (p @ drop (i + length p) s))"
    using s find_sub_split [OF f] by simp
  moreover have "\<not> is_cont (hd (p @ drop (i + length p) s))"
    using p by (cases p) (auto simp: is_ascii_def ascii_not_cont)
  ultimately have "utf8 (take i s)" and "utf8 (p @ drop (i + length p) s)"
    using utf8_split by blast+
  then show "utf8 (take i s)" "utf8 (drop (i + length p) s)"
    using utf8_append [OF utf8_ascii [OF p(1)]] by simp_all
qed

lemma is_char_boundary_utf8:
  assumes "utf8 s" and "is_char_boundary s i"
  shows "utf8 (take i s)"
proof (cases "i < length s \<and> i \<noteq> 0")
  case True
  then have "utf8 (take i s @ drop i s)" "\<not> is_cont (hd (drop i s))"
    using assms by (simp_all add: is_char_boundary_def hd_drop_conv_nth)
  then show ?thesis using utf8_split by blast
next
  case False
  with assms show ?thesis by (auto simp: is_char_boundary_def)
qed

lemma ws_multi_bytes: "list_all (\<lambda>w. w \<noteq> [] \<and> length w \<le> 3 \<and> list_all (\<lambda>b. 128 \<le> b \<and> b < 256) w) ws_multi"
  by (simp add: ws_multi_def upt_rec)

lemma map_byte_bytes: "list_all (\<lambda>b. b < 256) w \<Longrightarrow> map byte (bytes w) = w"
  by (induction w) (simp_all add: bytes_def)

lemma ws_multi_utf8: "list_all (\<lambda>w. utf8 (bytes w) \<and> \<not> is_cont (hd (bytes w)) \<and> w \<noteq> []) ws_multi"
  by (simp add: ws_multi_def upt_rec bytes_def Let_def utf8_width_def is_cont_def utf8_second_ok_def)

lemma find_SomeD: "List.find P xs = Some x \<Longrightarrow> x \<in> set xs \<and> P x"
  by (auto simp: find_Some_iff)

lemma bytes_byte [simp]: "bytes (map byte s) = s"
  by (simp add: bytes_def)


lemma prefix_take3:
  assumes "prefix w (map byte (take 3 s))"
  shows "take (length w) s = bytes w"
proof -
  from assms obtain r where "map byte (take 3 s) = w @ r" by (auto simp: prefix_def)
  then have "bytes w @ bytes r = take 3 s" by (metis bytes_byte bytes_def map_append)
  then have "prefix (bytes w) s" by (metis append_assoc append_take_drop_id prefixI)
  then show ?thesis by (auto simp: prefix_def bytes_def)
qed

lemma ws_len_of_pos:
  assumes "0 < ws_len_of tab s"
  obtains (ascii) c cs where "s = c # cs" "byte c < 128" "ws_len_of tab s = 1"
  | (multi) w where "w \<in> set tab" "take (length w) s = bytes w" "ws_len_of tab s = length w"
proof (cases s)
  case Nil
  with assms show ?thesis by (simp add: ws_len_of_def)
next
  case (Cons c cs)
  show ?thesis
  proof (cases "ws_ascii c")
    case True
    then have "byte c < 128" by (auto simp: ws_ascii_def)
    with Cons True show ?thesis using ascii by (simp add: ws_len_of_def)
  next
    case False
    with assms Cons obtain w where "List.find (\<lambda>w. prefix w (map byte (take 3 s))) tab = Some w"
      and "ws_len_of tab s = length w"
      by (auto simp: ws_len_of_def split: if_splits option.splits)
    with find_SomeD [OF this(1)] prefix_take3 multi show ?thesis by blast
  qed
qed

lemma utf8_drop_ws: "utf8 s \<Longrightarrow> utf8 (drop (ws_len s) s)"
proof (cases "ws_len s = 0")
  case False
  assume s: "utf8 s"
  from False have "0 < ws_len_of ws_multi s" by (simp add: ws_len_def)
  then show ?thesis
  proof (cases rule: ws_len_of_pos)
    case (ascii c cs)
    with s show ?thesis by (simp add: ws_len_def Let_def utf8_width_def)
  next
    case (multi w)
    with ws_multi_utf8 have "utf8 (take (length w) s)" by (auto simp: list_all_iff)
    from utf8_append [OF this, of "drop (length w) s"] s have "utf8 (drop (length w) s)"
      by (simp only: append_take_drop_id)
    with multi show ?thesis by (simp add: ws_len_def)
  qed
qed simp

lemma utf8_drop_ws_end: "utf8 s \<Longrightarrow> utf8 (rev (drop (ws_len_end (rev s)) (rev s)))"
proof (cases "ws_len_end (rev s) = 0")
  case False
  assume s: "utf8 s"
  let ?n = "ws_len_end (rev s)"
  have split: "s = rev (drop ?n (rev s)) @ rev (take ?n (rev s))"
    by (metis append_take_drop_id rev_append rev_rev_ident)
  from False have "0 < ws_len_of (map rev ws_multi) (rev s)" by (simp add: ws_len_end_def)
  then have "\<not> is_cont (hd (rev (take ?n (rev s))))"
  proof (cases rule: ws_len_of_pos)
    case (ascii c cs)
    then show ?thesis by (simp add: ws_len_end_def ascii_not_cont)
  next
    case (multi w)
    then have "rev w \<in> set ws_multi" by auto
    moreover from multi have "rev (take ?n (rev s)) = bytes (rev w)"
      by (simp add: ws_len_end_def bytes_def rev_map)
    ultimately show ?thesis using ws_multi_utf8 by (auto simp: list_all_iff)
  qed
  with utf8_split [of "rev (drop ?n (rev s))" "rev (take ?n (rev s))"] s split
  show ?thesis by simp
qed simp

lemma strip_front_preserves:
  assumes "\<And>s. P s \<Longrightarrow> P (drop (f s) s)" and "P s"
  shows "P (strip_front f s)"
  using assms(2)
proof (induction "length s" arbitrary: s rule: less_induct)
  case less
  show ?case
  proof (cases "s = [] \<or> f s = 0")
    case True
    with less.prems show ?thesis by (auto simp: strip_front.simps [of f s])
  next
    case False
    then have "strip_front f s = strip_front f (drop (f s) s)" by (simp add: strip_front.simps [of f s])
    with False less.hyps [of "drop (f s) s"] assms(1) [OF less.prems] show ?thesis by simp
  qed
qed

lemma ws_len_not_cont:
  assumes "ws_len s \<noteq> 0"
  shows "\<not> is_cont (hd s)"
proof -
  from assms have "0 < ws_len_of ws_multi s" by (simp add: ws_len_def)
  then show ?thesis
  proof (cases rule: ws_len_of_pos)
    case (ascii c cs)
    then show ?thesis by (simp add: ascii_not_cont)
  next
    case (multi w)
    with ws_multi_utf8 have "\<not> is_cont (hd (bytes w))" "w \<noteq> []" by (auto simp: list_all_iff)
    with multi(2) show ?thesis by (metis hd_take length_greater_0_conv)
  qed
qed

lemma trim_start_utf8: "utf8 s \<Longrightarrow> utf8 (trim_start s)"
  unfolding trim_start_def by (rule strip_front_preserves [where P = utf8 and f = ws_len, OF utf8_drop_ws])

lemma utf8_trim: "utf8 s \<Longrightarrow> utf8 (trim s)"
  unfolding trim_def trim_end_def
  by (intro strip_front_preserves [where P = "\<lambda>s. utf8 (rev s)"])
     (use utf8_drop_ws_end [of "rev s" for s] trim_start_utf8 in simp_all)

section \<open>Lemmas: substrings\<close>

lemma prefix_drop_mono: "prefix a b \<Longrightarrow> prefix (drop j a) (drop j b)"
  by (auto simp: prefix_def)

lemma not_sublist_drop: "\<not> sublist p s \<Longrightarrow> \<not> sublist p (drop n s)"
  by (meson sublist_drop sublist_order.order.trans)

lemma not_prefix_drop: "\<not> sublist p s \<Longrightarrow> \<not> prefix p (drop n s)"
  using not_sublist_drop prefix_imp_sublist by blast

lemma not_sublist_sep:
  assumes "x \<notin> set p" and "\<not> sublist p a" and "\<not> sublist p b"
  shows "\<not> sublist p (a @ x # b)"
proof
  assume "sublist p (a @ x # b)"
  with assms(2) consider (cons) "sublist p (x # b)"
    | (mid) u v where "p = u @ v" "suffix u a" "prefix v (x # b)"
    by (auto simp: sublist_append)
  then show False
  proof cases
    case cons
    with assms(3) have "prefix p (x # b)" by (simp add: sublist_Cons_right)
    with assms show False by (cases p) auto
  next
    case mid
    with assms(1) have "v = []" by (cases v) auto
    with mid assms(2) show False by (auto dest: suffix_imp_sublist)
  qed
qed

lemma ascii_upper_digit: "is_digit c \<Longrightarrow> ascii_upper c = c"
  by (simp add: is_digit_def ascii_upper_def)

lemma upper_digits: "list_all is_digit s \<Longrightarrow> to_ascii_uppercase s = s"
  by (induction s) (simp_all add: to_ascii_uppercase_def ascii_upper_digit)

lemma digits_no_colon: "list_all is_digit s \<Longrightarrow> CHR '':'' \<notin> set s"
  by (auto simp: list_all_iff is_digit_def)

end
