(* ===== verification/Config_Policy.thy ===== *)
theory Config_Policy
  imports Gateway_Prelude
begin

text \<open>
  Model of \<^verbatim>\<open>src/config.rs\<close> (the configuration record and its command-line defaults) and
  \<^verbatim>\<open>src/policy.rs\<close> (the startup-time security policy). Socket addresses are parsed as the standard
  library does; name resolution is an argument. Log lines are not modelled: the result of each
  function is. The lemmas compare the policy with the decision table of the README.
\<close>

section \<open>Configuration\<close>

record config =
  listen_addr :: str
  tls_cert :: "str option"
  tls_key :: "str option"
  trino_host :: str
  trino_port :: "16 word"
  trino_catalog :: str
  trino_schema :: str
  trino_user :: str
  trino_ssl :: bool
  trino_tls_no_verify :: bool
  trino_allow_plaintext_auth :: bool
  auth :: bool
  allow_insecure_listener :: bool
  max_connections :: nat

text \<open>The configuration that an empty command line yields.\<close>

definition default_config :: config where
  "default_config =
     \<lparr>listen_addr = ''127.0.0.1:5432'', tls_cert = None, tls_key = None,
      trino_host = ''localhost'', trino_port = 8080, trino_catalog = ''memory'',
      trino_schema = ''default'', trino_user = ''trino'', trino_ssl = False,
      trino_tls_no_verify = False, trino_allow_plaintext_auth = False, auth = False,
      allow_insecure_listener = False, max_connections = 256\<rparr>"

section \<open>Socket addresses\<close>

text \<open>An IPv4 address is its four octets, an IPv6 address its eight segments.\<close>

datatype ip_addr = V4 "nat list" | V6 "nat list"

fun is_loopback :: "ip_addr \<Rightarrow> bool" where
  "is_loopback (V4 os) = (case os of o1 # _ \<Rightarrow> o1 = 127 | [] \<Rightarrow> False)"
| "is_loopback (V6 segs) = (segs = [0, 0, 0, 0, 0, 0, 0, 1])"

text \<open>
  The parser of \<^verbatim>\<open>core::net\<close> behind \<^verbatim>\<open>str::parse::<SocketAddr>\<close>. A parser returns the value read and the
  remaining text; on failure nothing is consumed.
\<close>

type_synonym 'a addr_parser = "str \<Rightarrow> ('a \<times> str) option"

definition to_digit :: "nat \<Rightarrow> char \<Rightarrow> nat option" where
  "to_digit radix c =
     (let b = byte c;
          d = (if 48 \<le> b \<and> b \<le> 57 then b - 48
               else if 97 \<le> b \<and> b \<le> 122 then b - 87
               else if 65 \<le> b \<and> b \<le> 90 then b - 55 else radix)
      in if d < radix then Some d else None)"

fun take_digits :: "nat \<Rightarrow> str \<Rightarrow> nat list \<times> str" where
  "take_digits radix [] = ([], [])"
| "take_digits radix (c # cs) =
     (case to_digit radix c of
        Some d \<Rightarrow> (case take_digits radix cs of (ds, r) \<Rightarrow> (d # ds, r))
      | None \<Rightarrow> ([], c # cs))"

definition read_given_char :: "char \<Rightarrow> unit addr_parser" where
  "read_given_char x s = (case s of c # cs \<Rightarrow> if c = x then Some ((), cs) else None | [] \<Rightarrow> None)"

text \<open>\<open>bound\<close> is one more than the largest value of the target integer type.\<close>

definition read_number :: "nat \<Rightarrow> nat option \<Rightarrow> bool \<Rightarrow> nat \<Rightarrow> nat addr_parser" where
  "read_number radix max_digits allow_zero_prefix bound s =
     (case take_digits radix s of
        (ds, r) \<Rightarrow>
          let n = foldl (\<lambda>a d. a * radix + d) 0 ds in
          if ds = [] then None
          else if (case max_digits of Some m \<Rightarrow> m < length ds | None \<Rightarrow> False) then None
          else if \<not> allow_zero_prefix \<and> hd ds = 0 \<and> 1 < length ds then None
          else if n < bound then Some (n, r) else None)"

definition read_octet :: "nat \<Rightarrow> nat addr_parser" where
  "read_octet i s =
     (if i = 0 then read_number 10 (Some 3) False 256 s
      else case read_given_char (CHR ''.'') s of
             Some (_, r) \<Rightarrow> read_number 10 (Some 3) False 256 r
           | None \<Rightarrow> None)"

fun read_octets :: "nat \<Rightarrow> nat \<Rightarrow> (nat list) addr_parser" where
  "read_octets i 0 s = Some ([], s)"
| "read_octets i (Suc k) s =
     (case read_octet i s of
        Some (n, r) \<Rightarrow> map_option (\<lambda>(ns, r'). (n # ns, r')) (read_octets (Suc i) k r)
      | None \<Rightarrow> None)"

definition read_ipv4_addr :: "(nat list) addr_parser" where
  "read_ipv4_addr s = read_octets 0 4 s"

definition read_separator :: "char \<Rightarrow> nat \<Rightarrow> 'a addr_parser \<Rightarrow> 'a addr_parser" where
  "read_separator sep i inner s =
     (if i = 0 then inner s
      else case read_given_char sep s of Some (_, r) \<Rightarrow> inner r | None \<Rightarrow> None)"

text \<open>
  \<open>read_groups k i s\<close> reads at most \<open>k\<close> more segments, the next one being number \<open>i\<close>; the result
  has the segments, whether they end with an embedded IPv4 address, and the remaining text.
\<close>

fun read_groups :: "nat \<Rightarrow> nat \<Rightarrow> str \<Rightarrow> nat list \<times> bool \<times> str" where
  "read_groups 0 i s = ([], False, s)"
| "read_groups (Suc k) i s =
     (case (if 0 < k then read_separator (CHR '':'') i read_ipv4_addr s else None) of
        Some (os, r) \<Rightarrow> ([os ! 0 * 256 + os ! 1, os ! 2 * 256 + os ! 3], True, r)
      | None \<Rightarrow>
          (case read_separator (CHR '':'') i (read_number 16 (Some 4) True 65536) s of
             Some (g, r) \<Rightarrow> (case read_groups k (Suc i) r of (gs, v4, r') \<Rightarrow> (g # gs, v4, r'))
           | None \<Rightarrow> ([], False, s)))"

definition read_ipv6_addr :: "(nat list) addr_parser" where
  "read_ipv6_addr s =
     (case read_groups 8 0 s of
        (hs, head_ipv4, r) \<Rightarrow>
          if length hs = 8 then Some (hs, r)
          else if head_ipv4 then None
          else case read_given_char (CHR '':'') r of
                 None \<Rightarrow> None
               | Some (_, r1) \<Rightarrow>
                   (case read_given_char (CHR '':'') r1 of
                      None \<Rightarrow> None
                    | Some (_, r2) \<Rightarrow>
                        (case read_groups (7 - length hs) 0 r2 of
                           (ts, _, r3) \<Rightarrow>
                             Some (hs @ replicate (8 - length hs - length ts) 0 @ ts, r3))))"

definition read_port :: "nat addr_parser" where
  "read_port s =
     (case read_given_char (CHR '':'') s of
        Some (_, r) \<Rightarrow> read_number 10 None True 65536 r
      | None \<Rightarrow> None)"

text \<open>The scope identifier after a percent sign is skipped when it is well-formed.\<close>

definition skip_scope_id :: "str \<Rightarrow> str" where
  "skip_scope_id s =
     (case read_given_char (CHR ''%'') s of
        Some (_, r) \<Rightarrow>
          (case read_number 10 None True 4294967296 r of Some (_, r') \<Rightarrow> r' | None \<Rightarrow> s)
      | None \<Rightarrow> s)"

definition read_socket_addr_v4 :: "ip_addr addr_parser" where
  "read_socket_addr_v4 s =
     (case read_ipv4_addr s of
        Some (ip, r) \<Rightarrow> map_option (\<lambda>(p, r'). (V4 ip, r')) (read_port r)
      | None \<Rightarrow> None)"

definition read_socket_addr_v6 :: "ip_addr addr_parser" where
  "read_socket_addr_v6 s =
     (case read_given_char (CHR ''['') s of
        None \<Rightarrow> None
      | Some (_, r) \<Rightarrow>
          (case read_ipv6_addr r of
             None \<Rightarrow> None
           | Some (ip, r1) \<Rightarrow>
               (case read_given_char (CHR '']'') (skip_scope_id r1) of
                  None \<Rightarrow> None
                | Some (_, r2) \<Rightarrow> map_option (\<lambda>(p, r'). (V6 ip, r')) (read_port r2))))"

definition parse_socket_addr :: "str \<Rightarrow> ip_addr option" where
  "parse_socket_addr s =
     (case (case read_socket_addr_v4 s of Some x \<Rightarrow> Some x | None \<Rightarrow> read_socket_addr_v6 s) of
        Some (ip, []) \<Rightarrow> Some ip
      | _ \<Rightarrow> None)"

section \<open>The policy\<close>

datatype auth_posture =
    DisabledLoopback
  | DisabledOpenBind
  | CleartextRequiresTls
  | CleartextLoopback

text \<open>The error messages of \<^verbatim>\<open>bail!\<close> and \<^verbatim>\<open>with_context\<close>, by what they report.\<close>

datatype policy_error =
    InvalidListenAddr str str
  | ListenAddrResolvesToNothing str
  | AuthDisabledOnOpenBind str
  | AuthOnOpenBindRequiresTls str
  | AuthNeedsTrinoSslOrOptIn

text \<open>
  \<open>resolve\<close> is the system resolver behind \<^verbatim>\<open>to_socket_addrs\<close>: the resolved addresses, or the text of
  the resolver's error.
\<close>

type_synonym resolver = "str \<Rightarrow> str + ip_addr list"

definition listen_addr_is_loopback :: "resolver \<Rightarrow> str \<Rightarrow> policy_error + bool" where
  "listen_addr_is_loopback resolve addr =
     (case parse_socket_addr addr of
        Some ip \<Rightarrow> Inr (is_loopback ip)
      | None \<Rightarrow>
          (case resolve addr of
             Inl e \<Rightarrow> Inl (InvalidListenAddr addr e)
           | Inr ips \<Rightarrow>
               if ips = [] then Inl (ListenAddrResolvesToNothing addr)
               else Inr (list_all is_loopback ips)))"

definition has_tls :: "config \<Rightarrow> bool" where
  "has_tls c \<longleftrightarrow> tls_cert c \<noteq> None \<and> tls_key c \<noteq> None"

definition classify :: "resolver \<Rightarrow> config \<Rightarrow> policy_error + auth_posture" where
  "classify resolve c =
     (if \<not> auth c then
        (case listen_addr_is_loopback resolve (listen_addr c) of
           Inl e \<Rightarrow> Inl e
         | Inr lb \<Rightarrow>
             if lb then Inr DisabledLoopback
             else if allow_insecure_listener c then Inr DisabledOpenBind
             else Inl (AuthDisabledOnOpenBind (listen_addr c)))
      else if has_tls c then Inr CleartextRequiresTls
      else
        (case listen_addr_is_loopback resolve (listen_addr c) of
           Inl e \<Rightarrow> Inl e
         | Inr lb \<Rightarrow>
             if lb then Inr CleartextLoopback
             else Inl (AuthOnOpenBindRequiresTls (listen_addr c))))"

definition validate_trino_posture :: "config \<Rightarrow> policy_error + unit" where
  "validate_trino_posture c =
     (if auth c \<and> \<not> trino_ssl c \<and> \<not> trino_allow_plaintext_auth c
      then Inl AuthNeedsTrinoSslOrOptIn else Inr ())"

definition validate :: "resolver \<Rightarrow> config \<Rightarrow> policy_error + auth_posture" where
  "validate resolve c =
     (case classify resolve c of
        Inl e \<Rightarrow> Inl e
      | Inr posture \<Rightarrow>
          (case validate_trino_posture c of Inl e \<Rightarrow> Inl e | Inr _ \<Rightarrow> Inr posture))"

section \<open>Reading a formatted IPv4 socket address\<close>

lemma to_digit_digit_char [simp]: "d < 10 \<Longrightarrow> to_digit 10 (digit_char d) = Some d"
  by (simp add: to_digit_def digit_char_def)

lemma take_digits_append:
  assumes "list_all is_digit ds" and "r = [] \<or> to_digit 10 (hd r) = None"
  shows "take_digits 10 (ds @ r) = (map digit_val ds, r)"
  using assms
proof (induction ds)
  case Nil
  then show ?case by (cases r) auto
next
  case (Cons d ds)
  then have "to_digit 10 d = Some (digit_val d)"
    by (auto simp: to_digit_def is_digit_def digit_val_def Let_def)
  with Cons show ?case by simp
qed

lemma nat_to_str_leading: "0 < n \<Longrightarrow> digit_val (hd (nat_to_str n)) \<noteq> 0"
proof (induction n rule: nat_to_str.induct)
  case (1 n)
  show ?case
  proof (cases "n < 10")
    case True
    with "1.prems" show ?thesis by (simp add: nat_to_str.simps [of n])
  next
    case False
    with "1.IH" show ?thesis by (simp add: nat_to_str.simps [of n])
  qed
qed

lemma foldl_digits: "foldl (\<lambda>a d. a * 10 + d) 0 (map digit_val (nat_to_str n)) = n"
  using digits_val_nat_to_str [of n] by (simp add: digits_val_def foldl_map mult.commute)

lemma read_number_nat_to_str:
  assumes "n < bound" and "r = [] \<or> to_digit 10 (hd r) = None"
    and "case m of Some k \<Rightarrow> length (nat_to_str n) \<le> k | None \<Rightarrow> True"
  shows "read_number 10 m z bound (nat_to_str n @ r) = Some (n, r)"
proof -
  have "take_digits 10 (nat_to_str n @ r) = (map digit_val (nat_to_str n), r)"
    by (rule take_digits_append [OF nat_to_str_digits assms(2)])
  moreover have "\<not> (hd (map digit_val (nat_to_str n)) = 0 \<and> 1 < length (nat_to_str n))"
  proof (cases "n = 0")
    case True
    then show ?thesis by (simp add: nat_to_str.simps [of 0])
  next
    case False
    then show ?thesis using nat_to_str_leading [of n] by (simp add: hd_map)
  qed
  ultimately show ?thesis
    using assms foldl_digits [of n] by (auto simp: read_number_def Let_def split: option.splits)
qed

lemma octet_length: "n < 256 \<Longrightarrow> length (nat_to_str n) \<le> 3"
  using nat_to_str_length [of n 2] by simp

definition ipv4_text :: "nat \<Rightarrow> nat \<Rightarrow> nat \<Rightarrow> nat \<Rightarrow> nat \<Rightarrow> str" where
  "ipv4_text a b c d port =
     nat_to_str a @ ''.'' @ nat_to_str b @ ''.'' @ nat_to_str c @ ''.'' @ nat_to_str d @ '':'' @ nat_to_str port"

lemma sep_not_digit [simp]: "to_digit 10 (CHR ''.'') = None" "to_digit 10 (CHR '':'') = None"
  by (simp_all add: to_digit_def)

lemma parse_socket_addr_ipv4:
  assumes "a < 256" "b < 256" "c < 256" "d < 256" "port < 65536"
  shows "parse_socket_addr (ipv4_text a b c d port) = Some (V4 [a, b, c, d])"
proof -
  have oct: "read_number 10 (Some 3) False 256 (nat_to_str n @ x # r) = Some (n, x # r)"
    if "n < 256" "to_digit 10 x = None" for n x r
    using that octet_length by (intro read_number_nat_to_str) auto
  have port: "read_number 10 None True 65536 (nat_to_str port) = Some (port, [])"
    using read_number_nat_to_str [of port 65536 "[]" None True] assms(5) by simp
  have four: "(4::nat) = Suc (Suc (Suc (Suc 0)))" by simp
  have "read_ipv4_addr (ipv4_text a b c d port) = Some ([a, b, c, d], CHR '':'' # nat_to_str port)"
    using assms(1-4) unfolding read_ipv4_addr_def ipv4_text_def four
    by (simp add: read_octet_def oct read_given_char_def)
  then show ?thesis
    by (simp add: parse_socket_addr_def read_socket_addr_v4_def read_port_def read_given_char_def port)
qed

section \<open>Properties\<close>

text \<open>The rows of the README's table: does the listener configuration start?\<close>

definition readme_listener_ok :: "bool \<Rightarrow> bool \<Rightarrow> bool \<Rightarrow> bool \<Rightarrow> bool" where
  "readme_listener_ok auth_on tls loopback opt_in =
     (if \<not> auth_on then (loopback \<or> opt_in) else (tls \<or> loopback))"

text \<open>C19. The policy is the README's table: whenever the listen address can be resolved, the gateway's
  configuration passes exactly when the table allows the listener and, with \<^verbatim>\<open>--auth\<close>, Trino is
  reached over TLS or forwarding over plain HTTP was opted into.\<close>

theorem policy_matches_readme:
  assumes "listen_addr_is_loopback resolve (listen_addr c) = Inr lb"
  shows "(\<exists>p. validate resolve c = Inr p) \<longleftrightarrow>
         readme_listener_ok (auth c) (has_tls c) lb (allow_insecure_listener c)
         \<and> (auth c \<longrightarrow> trino_ssl c \<or> trino_allow_plaintext_auth c)"
  using assms
  by (auto simp: validate_def classify_def validate_trino_posture_def readme_listener_ok_def)

theorem policy_matches_readme_witness:
  "(\<exists>p. validate (\<lambda>_. Inl []) (default_config\<lparr>listen_addr := ''0.0.0.0:5432''\<rparr>) = Inr p) \<longleftrightarrow> False"
proof -
  have "listen_addr_is_loopback (\<lambda>_. Inl []) (listen_addr (default_config\<lparr>listen_addr := ''0.0.0.0:5432''\<rparr>)) = Inr False"
    by code_simp
  from policy_matches_readme [OF this] show ?thesis
    by (simp add: readme_listener_ok_def default_config_def)
qed

text \<open>The addresses that \<^verbatim>\<open>TcpListener::bind\<close> can bind for a listen address.\<close>

definition bound_addresses :: "resolver \<Rightarrow> str \<Rightarrow> ip_addr list" where
  "bound_addresses resolve addr =
     (case parse_socket_addr addr of
        Some ip \<Rightarrow> [ip]
      | None \<Rightarrow> (case resolve addr of Inl _ \<Rightarrow> [] | Inr ips \<Rightarrow> ips))"

lemma validate_safe:
  assumes "validate resolve c = Inr p"
  shows "(p = CleartextRequiresTls \<longleftrightarrow> auth c \<and> has_tls c)
       \<and> (auth c \<longrightarrow> trino_ssl c \<or> trino_allow_plaintext_auth c)
       \<and> (p = CleartextRequiresTls \<or> (\<forall>ip \<in> set (bound_addresses resolve (listen_addr c)). is_loopback ip)
          \<or> \<not> auth c \<and> allow_insecure_listener c)"
  using assms
  by (auto simp: validate_def classify_def validate_trino_posture_def listen_addr_is_loopback_def
        bound_addresses_def list_all_iff split: sum.splits if_splits option.splits)

text \<open>Safety of an accepted configuration: the posture says TLS is required exactly when
  authentication and a key pair are configured; with authentication, credentials go to Trino over TLS
  or by explicit opt-in only; and in any other posture every address the listener can bind is a
  loopback address, unless unauthenticated network access was opted into.\<close>

theorem validated_config_is_safe:
  assumes "validate resolve c = Inr p"
  shows "(p = CleartextRequiresTls \<longleftrightarrow> auth c \<and> has_tls c)
       \<and> (auth c \<longrightarrow> trino_ssl c \<or> trino_allow_plaintext_auth c)
       \<and> (p = CleartextRequiresTls \<or> (\<forall>ip \<in> set (bound_addresses resolve (listen_addr c)). is_loopback ip)
          \<or> \<not> auth c \<and> allow_insecure_listener c)"
  by (rule validate_safe [OF assms])

theorem validated_config_is_safe_witness:
  "validate (\<lambda>_. Inl []) (default_config\<lparr>auth := True, trino_ssl := True\<rparr>) = Inr CleartextLoopback
   \<and> list_all is_loopback (bound_addresses (\<lambda>_. Inl []) ''127.0.0.1:5432'')"
proof -
  have v: "validate (\<lambda>_. Inl []) (default_config\<lparr>auth := True, trino_ssl := True\<rparr>) = Inr CleartextLoopback"
    by code_simp
  from validated_config_is_safe [OF v] v show ?thesis by (simp add: default_config_def list_all_iff)
qed

text \<open>The loopback test on IPv4 listen addresses: for all octets and every port, the address counts
  as loopback exactly when it lies in 127.0.0.0/8, whatever the resolver answers.\<close>

theorem loopback_ipv4_range:
  assumes "a < 256" "b < 256" "c < 256" "d < 256" "port < 65536"
  shows "listen_addr_is_loopback resolve (ipv4_text a b c d port) = Inr (a = 127)"
  using parse_socket_addr_ipv4 [OF assms] by (simp add: listen_addr_is_loopback_def)

theorem loopback_ipv4_range_witness:
  "listen_addr_is_loopback (\<lambda>_. Inl []) (ipv4_text 127 0 0 2 5432) = Inr (127 = (127::nat))
   \<and> listen_addr_is_loopback (\<lambda>_. Inl []) (ipv4_text 10 20 30 40 5432) = Inr (10 = (127::nat))"
  by (intro conjI loopback_ipv4_range) simp_all

end
