(* ===== verification/Session.thy ===== *)
theory Session
  imports Config_Policy
begin

text \<open>
  Model of \<^verbatim>\<open>src/session.rs\<close>, \<^verbatim>\<open>src/cancel.rs\<close> and the two cache functions of
  \<^verbatim>\<open>src/query_extended.rs\<close>: the process-wide cancel registry, the shared cells that hold a
  connection's active Trino query id, the per-connection portal cache and the cancel handler. The
  two keyed stores implement one interface, stated as a locale.
\<close>

section \<open>Keyed stores\<close>

locale keyed_store =
  fixes lookup :: "'s \<Rightarrow> 'k \<Rightarrow> 'v option"
    and insert :: "'k \<Rightarrow> 'v \<Rightarrow> 's \<Rightarrow> 's"
    and remove :: "'k \<Rightarrow> 's \<Rightarrow> 's"
    and invar :: "'s \<Rightarrow> bool"
  assumes lookup_insert: "invar s \<Longrightarrow> lookup (insert k v s) k' = (if k' = k then Some v else lookup s k')"
    and lookup_remove: "invar s \<Longrightarrow> lookup (remove k s) k' = (if k' = k then None else lookup s k')"
    and invar_insert: "invar s \<Longrightarrow> invar (insert k v s)"
    and invar_remove: "invar s \<Longrightarrow> invar (remove k s)"
begin

lemma lookup_remove_insert:
  "invar s \<Longrightarrow> lookup (remove k (insert k v s)) k' = lookup (remove k s) k'"
  by (simp add: lookup_insert lookup_remove invar_insert)

lemma lookup_insert_other: "invar s \<Longrightarrow> k' \<noteq> k \<Longrightarrow> lookup (insert k v s) k' = lookup s k'"
  by (simp add: lookup_insert)

lemma lookup_remove_other: "invar s \<Longrightarrow> k' \<noteq> k \<Longrightarrow> lookup (remove k s) k' = lookup s k'"
  by (simp add: lookup_remove)

end

text \<open>A store that counts its entries can be kept below a cap.\<close>

locale sized_store = keyed_store +
  fixes count :: "'a \<Rightarrow> nat"
  assumes count_insert:
    "invar s \<Longrightarrow> count (insert k v s) = (if lookup s k = None then Suc (count s) else count s)"
    and count_remove:
    "invar s \<Longrightarrow> count (remove k s) = (if lookup s k = None then count s else count s - 1)"
begin

lemma count_capped_insert:
  assumes "invar s" and "count s \<le> cap"
  shows "count (if cap \<le> count s \<and> lookup s k = None then s else insert k v s) \<le> cap"
  using assms by (auto simp: count_insert)

lemma count_remove_le: "invar s \<Longrightarrow> count (remove k s) \<le> count s"
  by (simp add: count_remove)

lemma capped_insert_present:
  assumes "invar s" and "count s < cap \<or> lookup s k \<noteq> None"
  shows "lookup (if cap \<le> count s \<and> lookup s k = None then s else insert k v s) k = Some v"
  using assms by (auto simp: lookup_insert)

end

section \<open>Trino clients and the gateway's shared state\<close>

text \<open>
  A Trino client is given by the settings its builder received: \<^verbatim>\<open>ClientBuilder::new\<close>, \<^verbatim>\<open>port\<close>,
  \<^verbatim>\<open>catalog\<close>, \<^verbatim>\<open>schema\<close>, \<^verbatim>\<open>secure\<close>, \<^verbatim>\<open>no_verify\<close>, \<^verbatim>\<open>auth\<close> (user and password of Basic auth) and
  \<^verbatim>\<open>auth_http_insecure\<close>.
\<close>

record trino_client =
  cl_user :: str
  cl_host :: str
  cl_port :: "16 word"
  cl_catalog :: str
  cl_schema :: str
  cl_secure :: bool
  cl_no_verify :: bool
  cl_auth :: "(str \<times> str option) option"
  cl_auth_http_insecure :: bool

datatype secret_key = I32 "32 word" | SecretBytes str

type_synonym cancel_key = "32 word \<times> secret_key"

text \<open>An \<open>ActiveQueryId\<close> is the address of a shared cell; the cell's content is in \<open>slots\<close>.\<close>

type_synonym slot = nat

record cancel_entry =
  ce_trino_client :: trino_client
  ce_active_query_id :: slot

text \<open>
  The process-wide state: the static \<^verbatim>\<open>CANCEL_REGISTRY\<close>, the cells allocated so far, and the static
  \<^verbatim>\<open>CONNECTION_PID\<close> counter.
\<close>

record gateway =
  registry :: "cancel_key \<Rightarrow> cancel_entry option"
  slots :: "slot \<Rightarrow> str option"
  next_slot :: slot
  connection_pid :: "32 word"

definition init_gateway :: gateway where
  "init_gateway = \<lparr>registry = (\<lambda>_. None), slots = (\<lambda>_. None), next_slot = 0, connection_pid = 1\<rparr>"

section \<open>The cancel registry\<close>

definition registry_insert ::
  "cancel_key \<Rightarrow> cancel_entry \<Rightarrow> (cancel_key \<Rightarrow> cancel_entry option) \<Rightarrow> (cancel_key \<Rightarrow> cancel_entry option)" where
  "registry_insert k e r = r(k := Some e)"

definition registry_remove ::
  "cancel_key \<Rightarrow> (cancel_key \<Rightarrow> cancel_entry option) \<Rightarrow> (cancel_key \<Rightarrow> cancel_entry option)" where
  "registry_remove k r = r(k := None)"

definition register_cancel ::
  "32 word \<Rightarrow> secret_key \<Rightarrow> trino_client \<Rightarrow> gateway \<Rightarrow> slot \<times> gateway" where
  "register_cancel pid secret client g =
     (let active_query_id = next_slot g;
          g' = g\<lparr>slots := (slots g)(active_query_id := None), next_slot := Suc (next_slot g)\<rparr>
      in (active_query_id,
          g'\<lparr>registry := registry_insert (pid, secret)
               \<lparr>ce_trino_client = client, ce_active_query_id = active_query_id\<rparr> (registry g')\<rparr>))"

definition lookup_cancel :: "32 word \<Rightarrow> secret_key \<Rightarrow> gateway \<Rightarrow> (trino_client \<times> slot) option" where
  "lookup_cancel pid secret g =
     map_option (\<lambda>e. (ce_trino_client e, ce_active_query_id e)) (registry g (pid, secret))"

definition unregister_cancel :: "32 word \<Rightarrow> secret_key \<Rightarrow> gateway \<Rightarrow> gateway" where
  "unregister_cancel pid secret g = g\<lparr>registry := registry_remove (pid, secret) (registry g)\<rparr>"

text \<open>
  The cell write of \<^verbatim>\<open>set_active_query_id\<close> (\<^verbatim>\<open>src/trino_stream.rs\<close>): nothing happens without a cell; a
  poisoned mutex is written like a healthy one.
\<close>

definition set_active_query_id :: "slot option \<Rightarrow> str option \<Rightarrow> gateway \<Rightarrow> gateway" where
  "set_active_query_id sl qid g =
     (case sl of None \<Rightarrow> g | Some a \<Rightarrow> g\<lparr>slots := (slots g)(a := qid)\<rparr>)"

text \<open>
  The cancel handler: the call \<^verbatim>\<open>trino_client.cancel(&qid)\<close> it makes, if any. Its outcome is only
  logged.
\<close>

definition on_cancel_request :: "32 word \<Rightarrow> secret_key \<Rightarrow> gateway \<Rightarrow> (trino_client \<times> str) option" where
  "on_cancel_request pid secret g =
     (case lookup_cancel pid secret g of
        None \<Rightarrow> None
      | Some (trino_client, active_query_id) \<Rightarrow>
          (case slots g active_query_id of
             None \<Rightarrow> None
           | Some qid \<Rightarrow> Some (trino_client, qid)))"

section \<open>The portal cache\<close>

record 'r cached_portal_response =
  cp_query :: str
  cp_response :: 'r

text \<open>
  \<^verbatim>\<open>Arc<Mutex<HashMap<..>>>\<close>: the poison flag of the mutex and the map, an association list with
  distinct keys.
\<close>

record 'r portal_cache =
  pc_poisoned :: bool
  pc_entries :: "(str \<times> 'r cached_portal_response) list"

definition new_portal_cache :: "'r portal_cache" where
  "new_portal_cache = \<lparr>pc_poisoned = False, pc_entries = []\<rparr>"

definition cache_poisoned :: pgwire_error where
  "cache_poisoned = ApiError ''portal cache mutex poisoned''"

definition MAX_CACHED_PORTALS :: nat where
  "MAX_CACHED_PORTALS = 64"

definition cache_insert :: "str \<Rightarrow> 'v \<Rightarrow> (str \<times> 'v) list \<Rightarrow> (str \<times> 'v) list" where
  "cache_insert name entry m = (name, entry) # filter (\<lambda>(k, _). k \<noteq> name) m"

definition cache_remove :: "str \<Rightarrow> (str \<times> 'v) list \<Rightarrow> (str \<times> 'v) list" where
  "cache_remove name m = filter (\<lambda>(k, _). k \<noteq> name) m"

definition cache_wf :: "(str \<times> 'v) list \<Rightarrow> bool" where
  "cache_wf m \<longleftrightarrow> distinct (map fst m)"

definition take_cached ::
  "'r portal_cache \<Rightarrow> str \<Rightarrow> ('r cached_portal_response option \<times> 'r portal_cache) pg_result" where
  "take_cached cache name =
     (if pc_poisoned cache then Inl cache_poisoned
      else Inr (map_of (pc_entries cache) name,
                cache\<lparr>pc_entries := cache_remove name (pc_entries cache)\<rparr>))"

definition insert_cached ::
  "'r portal_cache \<Rightarrow> str \<Rightarrow> 'r cached_portal_response \<Rightarrow> 'r portal_cache pg_result" where
  "insert_cached cache name entry =
     (if pc_poisoned cache then Inl cache_poisoned
      else if MAX_CACHED_PORTALS \<le> length (pc_entries cache) \<and> map_of (pc_entries cache) name = None
      then Inr cache
      else Inr (cache\<lparr>pc_entries := cache_insert name entry (pc_entries cache)\<rparr>))"

section \<open>Connection state\<close>

record 'r connection_state =
  cs_trino_client :: trino_client
  cs_config :: config
  cs_portals :: "'r portal_cache"
  cs_active_query_id :: slot
  cs_cancel_key :: cancel_key

text \<open>\<^verbatim>\<open>Drop for ConnectionState\<close>.\<close>

definition drop_connection_state :: "'r connection_state \<Rightarrow> gateway \<Rightarrow> gateway" where
  "drop_connection_state cs g = unregister_cancel (fst (cs_cancel_key cs)) (snd (cs_cancel_key cs)) g"

section \<open>The stores meet the interface\<close>

interpretation reg: keyed_store "\<lambda>r k. r k" registry_insert registry_remove "\<lambda>_. True"
  by unfold_locales (auto simp: registry_insert_def registry_remove_def)

lemma map_of_filter_key: "map_of (filter (\<lambda>(k, _). k \<noteq> n) m) k = (if k = n then None else map_of m k)"
  by (induction m) auto

lemma length_filter_key:
  "distinct (map fst m) \<Longrightarrow>
   length (filter (\<lambda>(k, _). k \<noteq> n) m) = (if map_of m n = None then length m else length m - 1)"
proof (induction m)
  case (Cons p m)
  show ?case
  proof (cases "fst p = n")
    case True
    with Cons.prems have "map_of m n = None" by (auto simp: map_of_eq_None_iff)
    with Cons True show ?thesis by (cases p) auto
  next
    case False
    have "map_of m n \<noteq> None \<Longrightarrow> 0 < length m" by (cases m) auto
    with Cons False show ?thesis by (cases p) auto
  qed
qed simp

lemma distinct_filter_key: "distinct (map fst m) \<Longrightarrow> distinct (map fst (filter P m))"
  by (induction m) auto

interpretation portals: sized_store map_of cache_insert cache_remove cache_wf length
proof unfold_locales
  fix s :: "(str \<times> 'b) list" and k k' :: str and v :: 'b
  assume wf: "cache_wf s"
  show "map_of (cache_insert k v s) k' = (if k' = k then Some v else map_of s k')"
    by (simp add: cache_insert_def map_of_filter_key)
  show "map_of (cache_remove k s) k' = (if k' = k then None else map_of s k')"
    by (simp add: cache_remove_def map_of_filter_key)
  show "cache_wf (cache_insert k v s)"
    using wf by (auto simp: cache_wf_def cache_insert_def distinct_filter_key)
  show "cache_wf (cache_remove k s)"
    using wf by (simp add: cache_wf_def cache_remove_def distinct_filter_key)
  have "map_of s k \<noteq> None \<Longrightarrow> 0 < length s" by (cases s) auto
  then show "length (cache_insert k v s) = (if map_of s k = None then Suc (length s) else length s)"
    using wf by (auto simp: cache_wf_def cache_insert_def length_filter_key)
  show "length (cache_remove k s) = (if map_of s k = None then length s else length s - 1)"
    using wf by (simp add: cache_wf_def cache_remove_def length_filter_key)
qed

section \<open>Lemmas on the portal cache\<close>

definition cache_ok :: "'r portal_cache \<Rightarrow> bool" where
  "cache_ok c \<longleftrightarrow>
     \<not> pc_poisoned c \<and> cache_wf (pc_entries c) \<and> length (pc_entries c) \<le> MAX_CACHED_PORTALS"

lemma new_portal_cache_ok [simp]: "cache_ok new_portal_cache"
  by (simp add: cache_ok_def new_portal_cache_def cache_wf_def)

lemma insert_cached_ok:
  assumes "cache_ok c"
  obtains c' where "insert_cached c name entry = Inr c'" and "cache_ok c'"
proof -
  let ?e = "pc_entries c"
  let ?e' = "if MAX_CACHED_PORTALS \<le> length ?e \<and> map_of ?e name = None then ?e else cache_insert name entry ?e"
  from assms have "length ?e' \<le> MAX_CACHED_PORTALS" and "cache_wf ?e'"
    by (simp_all add: cache_ok_def portals.count_capped_insert portals.invar_insert)
  then have "cache_ok (c\<lparr>pc_entries := ?e'\<rparr>)" using assms by (simp add: cache_ok_def)
  moreover have "insert_cached c name entry = Inr (c\<lparr>pc_entries := ?e'\<rparr>)"
    using assms by (auto simp: insert_cached_def cache_ok_def)
  ultimately show ?thesis by (rule that [rotated])
qed

lemma take_cached_ok:
  assumes "cache_ok c"
  obtains c' where "take_cached c name = Inr (map_of (pc_entries c) name, c')" and "cache_ok c'"
    and "\<And>n. map_of (pc_entries c') n = (if n = name then None else map_of (pc_entries c) n)"
proof
  let ?c' = "c\<lparr>pc_entries := cache_remove name (pc_entries c)\<rparr>"
  show "take_cached c name = Inr (map_of (pc_entries c) name, ?c')"
    using assms by (simp add: take_cached_def cache_ok_def)
  show "cache_ok ?c'"
    using assms portals.count_remove_le [of "pc_entries c" name]
    by (simp add: cache_ok_def portals.invar_remove)
  show "\<And>n. map_of (pc_entries ?c') n = (if n = name then None else map_of (pc_entries c) n)"
    using assms by (simp add: cache_ok_def portals.lookup_remove)
qed

section \<open>Properties\<close>

text \<open>The cache operations a connection can issue, and a run of them (stopping at an error).\<close>

datatype 'r cache_op = Stash str "'r cached_portal_response" | Take str

fun cache_run :: "'r portal_cache \<Rightarrow> 'r cache_op list \<Rightarrow> 'r portal_cache pg_result" where
  "cache_run c [] = Inr c"
| "cache_run c (Stash name entry # ops) =
     (case insert_cached c name entry of Inl e \<Rightarrow> Inl e | Inr c' \<Rightarrow> cache_run c' ops)"
| "cache_run c (Take name # ops) =
     (case take_cached c name of Inl e \<Rightarrow> Inl e | Inr (_, c') \<Rightarrow> cache_run c' ops)"

lemma cache_run_ok: "cache_ok c \<Longrightarrow> \<exists>c'. cache_run c ops = Inr c' \<and> cache_ok c'"
proof (induction ops arbitrary: c)
  case (Cons op ops)
  show ?case
  proof (cases op)
    case (Stash name entry)
    from insert_cached_ok [OF Cons.prems, of name entry] obtain c'
      where "insert_cached c name entry = Inr c'" "cache_ok c'" by blast
    with Stash Cons.IH [of c'] show ?thesis by simp
  next
    case (Take name)
    from take_cached_ok [OF Cons.prems, of name] obtain c'
      where "take_cached c name = Inr (map_of (pc_entries c) name, c')" "cache_ok c'" by blast
    with Take Cons.IH [of c'] show ?thesis by simp
  qed
qed simp

text \<open>C21. Whatever a client describes and executes, its portal cache never fails, never holds more than
  64 responses and never holds two responses for one portal.\<close>

theorem portal_cache_bounded:
  "\<exists>c. cache_run new_portal_cache ops = Inr c
     \<and> length (pc_entries c) \<le> 64 \<and> distinct (map fst (pc_entries c))"
  using cache_run_ok [OF new_portal_cache_ok, of ops]
  by (auto simp: cache_ok_def MAX_CACHED_PORTALS_def cache_wf_def)

text \<open>A stashed response is served exactly once: with room in the cache, the first take of that
  portal returns it and the second finds nothing; other portals are untouched.\<close>

theorem stash_take_once:
  assumes "cache_ok c" and "length (pc_entries c) < 64"
  shows "\<exists>c1 c2 c3. insert_cached c name entry = Inr c1
     \<and> take_cached c1 name = Inr (Some entry, c2) \<and> take_cached c2 name = Inr (None, c3)
     \<and> (\<forall>n. n \<noteq> name \<longrightarrow> map_of (pc_entries c3) n = map_of (pc_entries c) n)"
proof -
  define c1 where "c1 = c\<lparr>pc_entries := cache_insert name entry (pc_entries c)\<rparr>"
  have ins: "insert_cached c name entry = Inr c1"
    using assms by (simp add: insert_cached_def cache_ok_def MAX_CACHED_PORTALS_def c1_def)
  from insert_cached_ok [OF assms(1), of name entry] ins have ok1: "cache_ok c1" by auto
  have m1: "map_of (pc_entries c1) n = (if n = name then Some entry else map_of (pc_entries c) n)" for n
    using assms(1) by (simp add: c1_def cache_ok_def portals.lookup_insert)
  obtain c2 where t1: "take_cached c1 name = Inr (map_of (pc_entries c1) name, c2)" and ok2: "cache_ok c2"
    and m2: "\<And>n. map_of (pc_entries c2) n = (if n = name then None else map_of (pc_entries c1) n)"
    by (rule take_cached_ok [OF ok1, of name]) (rule that)
  obtain c3 where t2: "take_cached c2 name = Inr (map_of (pc_entries c2) name, c3)"
    and m3: "\<And>n. map_of (pc_entries c3) n = (if n = name then None else map_of (pc_entries c2) n)"
    by (rule take_cached_ok [OF ok2, of name]) (rule that)
  have "\<forall>n. n \<noteq> name \<longrightarrow> map_of (pc_entries c3) n = map_of (pc_entries c) n"
    by (simp add: m1 m2 m3)
  moreover have "take_cached c1 name = Inr (Some entry, c2)" "take_cached c2 name = Inr (None, c3)"
    using t1 t2 m1 [of name] m2 [of name] by simp_all
  ultimately show ?thesis using ins by blast
qed

theorem stash_take_once_witness:
  "\<exists>c1 c2 c3. insert_cached (new_portal_cache :: str portal_cache) ''p'' \<lparr>cp_query = ''q'', cp_response = ''r''\<rparr> = Inr c1
     \<and> take_cached c1 ''p'' = Inr (Some \<lparr>cp_query = ''q'', cp_response = ''r''\<rparr>, c2)
     \<and> take_cached c2 ''p'' = Inr (None, c3)
     \<and> (\<forall>n. n \<noteq> ''p'' \<longrightarrow> map_of (pc_entries c3) n = map_of (pc_entries (new_portal_cache :: str portal_cache)) n)"
  by (rule stash_take_once) (simp_all add: new_portal_cache_def cache_ok_def cache_wf_def)

end
