(* ===== verification/Startup.thy ===== *)
theory Startup
  imports Session
begin

text \<open>
  Model of \<^verbatim>\<open>src/startup.rs\<close>: the server parameters, the allocation of the cancel key, the Trino client
  built for a connection and the startup handler. What the handler gets from outside (the wire
  library's negotiation and sends, the Trino client builder and the credential check, the random
  secret) is the record \<open>wire_env\<close> of one call.
\<close>

section \<open>Server parameters\<close>

definition SERVER_PARAMS :: "(str \<times> str) list" where
  "SERVER_PARAMS =
     [(''server_version'', ''16.6''),
      (''server_version_num'', ''160006''),
      (''server_encoding'', ''UTF8''),
      (''client_encoding'', ''UTF8''),
      (''DateStyle'', ''ISO, MDY''),
      (''integer_datetimes'', ''on''),
      (''standard_conforming_strings'', ''on''),
      (''TimeZone'', ''UTC''),
      (''IntervalStyle'', ''postgres''),
      (''in_hot_standby'', ''off''),
      (''search_path'', [CHR 0x22] @ ''$user'' @ [CHR 0x22] @ '', public''),
      (''is_superuser'', ''on''),
      (''default_transaction_read_only'', ''off''),
      (''application_name'', ''''),
      (''max_identifier_length'', ''63''),
      (''transaction_isolation'', ''read committed'')]"

text \<open>The \<^verbatim>\<open>HashMap\<close> collected by \<^verbatim>\<open>server_parameters\<close>: a later entry for a key would win.\<close>

definition server_parameters :: "str \<Rightarrow> str option" where
  "server_parameters = map_of (rev SERVER_PARAMS)"

section \<open>Connections during startup\<close>

datatype conn_phase = AwaitingStartup | AuthenticationInProgress | ReadyForQuery

datatype backend_message = CleartextPasswordChallenge | StartupFinished "str \<Rightarrow> str option"

record 'r pg_client =
  is_secure :: bool
  metadata :: "str \<Rightarrow> str option"
  phase :: conn_phase
  pid_and_secret_key :: "cancel_key option"
  session_state :: "'r connection_state option"
  sent :: "backend_message list"

datatype frontend_message =
    StartupMessage "(str \<times> str) list"
  | PasswordMessageFamily "str pg_result"
  | OtherMessage

text \<open>
  One call's environment: the outcomes of \<^verbatim>\<open>protocol_negotiation\<close>, of the send and of
  \<^verbatim>\<open>finish_authentication\<close> (an error, if any), \<^verbatim>\<open>ClientBuilder::build\<close> and the credential check
  \<^verbatim>\<open>SELECT 1\<close> as the error text they fail with for a given client, and \<^verbatim>\<open>rand::random::<i32>()\<close>.
\<close>

record wire_env =
  negotiation_error :: "pgwire_error option"
  send_error :: "pgwire_error option"
  finish_error :: "pgwire_error option"
  build_error :: "trino_client \<Rightarrow> str option"
  check_error :: "trino_client \<Rightarrow> str option"
  random_secret :: "32 word"

definition tls_required :: "config \<Rightarrow> bool" where
  "tls_required cfg \<longleftrightarrow> tls_cert cfg \<noteq> None \<and> tls_key cfg \<noteq> None"

text \<open>\<^verbatim>\<open>AtomicI32::fetch_add\<close> wraps around.\<close>

definition new_pid_and_secret_key :: "wire_env \<Rightarrow> gateway \<Rightarrow> cancel_key \<times> gateway" where
  "new_pid_and_secret_key env g =
     ((connection_pid g, I32 (random_secret env)), g\<lparr>connection_pid := connection_pid g + 1\<rparr>)"

definition build_trino_client ::
  "wire_env \<Rightarrow> config \<Rightarrow> str option \<Rightarrow> str option \<Rightarrow> trino_client pg_result" where
  "build_trino_client env cfg user password =
     (let trino_usr = (case user of Some u \<Rightarrow> u | None \<Rightarrow> trino_user cfg);
          b0 = \<lparr>cl_user = trino_usr, cl_host = trino_host cfg, cl_port = trino_port cfg,
                cl_catalog = trino_catalog cfg, cl_schema = trino_schema cfg,
                cl_secure = False, cl_no_verify = False, cl_auth = None,
                cl_auth_http_insecure = False\<rparr>;
          b1 = (if trino_ssl cfg then b0\<lparr>cl_secure := True\<rparr> else b0);
          b2 = (if trino_tls_no_verify cfg then b1\<lparr>cl_no_verify := True\<rparr> else b1);
          b3 = (case password of
                  Some pw \<Rightarrow> b2\<lparr>cl_auth := Some (trino_usr, Some pw),
                                cl_auth_http_insecure := trino_allow_plaintext_auth cfg\<rparr>
                | None \<Rightarrow> b2)
      in case build_error env b3 of
           Some e \<Rightarrow> Inl (ApiError e)
         | None \<Rightarrow> Inr b3)"

text \<open>
  \<^verbatim>\<open>session_extensions().insert\<close> replaces a state stored before, whose \<^verbatim>\<open>Drop\<close> then runs.
\<close>

definition establish_session ::
  "wire_env \<Rightarrow> config \<Rightarrow> 'r pg_client \<Rightarrow> trino_client \<Rightarrow> gateway \<Rightarrow>
   unit pg_result \<times> 'r pg_client \<times> gateway" where
  "establish_session env cfg client tc g =
     (case new_pid_and_secret_key env g of
        ((pid, secret), g1) \<Rightarrow>
          (let c1 = client\<lparr>pid_and_secret_key := Some (pid, secret)\<rparr>;
               (active_query_id, g2) = register_cancel pid secret tc g1;
               st = \<lparr>cs_trino_client = tc, cs_config = cfg, cs_portals = new_portal_cache,
                     cs_active_query_id = active_query_id, cs_cancel_key = (pid, secret)\<rparr>;
               g3 = (case session_state c1 of
                       Some old \<Rightarrow> drop_connection_state old g2
                     | None \<Rightarrow> g2);
               c2 = c1\<lparr>session_state := Some st\<rparr>
           in case finish_error env of
                Some e \<Rightarrow> (Inl e, c2, g3)
              | None \<Rightarrow>
                  (Inr (),
                   c2\<lparr>phase := ReadyForQuery, sent := sent c2 @ [StartupFinished server_parameters]\<rparr>,
                   g3)))"

definition tls_required_error :: pgwire_error where
  "tls_required_error =
     UserError \<lparr>severity = ''FATAL'', code = ''28000'',
       message = ''TLS is required for password authentication on this server''\<rparr>"

definition on_startup ::
  "wire_env \<Rightarrow> config \<Rightarrow> 'r pg_client \<Rightarrow> frontend_message \<Rightarrow> gateway \<Rightarrow>
   unit pg_result \<times> 'r pg_client \<times> gateway" where
  "on_startup env cfg client msg g =
     (case msg of
        StartupMessage params \<Rightarrow>
          (case negotiation_error env of
             Some e \<Rightarrow> (Inl e, client, g)
           | None \<Rightarrow>
               (let c1 = client\<lparr>metadata := metadata client ++ map_of (rev params)\<rparr> in
                if auth cfg \<and> tls_required cfg \<and> \<not> is_secure c1
                then (Inl tls_required_error, c1, g)
                else if auth cfg then
                  (let c2 = c1\<lparr>phase := AuthenticationInProgress\<rparr> in
                   case send_error env of
                     Some e \<Rightarrow> (Inl e, c2, g)
                   | None \<Rightarrow> (Inr (), c2\<lparr>sent := sent c2 @ [CleartextPasswordChallenge]\<rparr>, g))
                else
                  (case build_trino_client env cfg None None of
                     Inl e \<Rightarrow> (Inl e, c1, g)
                   | Inr tc \<Rightarrow> establish_session env cfg c1 tc g)))
      | PasswordMessageFamily pwd \<Rightarrow>
          (case pwd of
             Inl e \<Rightarrow> (Inl e, client, g)
           | Inr password \<Rightarrow>
               (let user = (case metadata client ''user'' of Some u \<Rightarrow> u | None \<Rightarrow> []) in
                case build_trino_client env cfg (Some user) (Some password) of
                  Inl e \<Rightarrow> (Inl e, client, g)
                | Inr tc \<Rightarrow>
                    (case check_error env tc of
                       Some _ \<Rightarrow> (Inl (InvalidPassword user), client, g)
                     | None \<Rightarrow> establish_session env cfg client tc g)))
      | OtherMessage \<Rightarrow>
          (Inl (ApiError ''Expected Startup message during connection setup''), client, g))"

section \<open>Lemmas\<close>

lemma build_trino_client_settings:
  assumes "build_trino_client env cfg user password = Inr tc"
  shows "cl_secure tc = trino_ssl cfg" and "cl_no_verify tc = trino_tls_no_verify cfg"
    and "cl_host tc = trino_host cfg"
    and "cl_auth tc = map_option (\<lambda>pw. (case user of Some u \<Rightarrow> u | None \<Rightarrow> trino_user cfg, Some pw)) password"
    and "cl_user tc = (case user of Some u \<Rightarrow> u | None \<Rightarrow> trino_user cfg)"
    and "cl_auth_http_insecure tc = (password \<noteq> None \<and> trino_allow_plaintext_auth cfg)"
    and "build_error env tc = None"
  using assms
  by (auto simp: build_trino_client_def Let_def split: option.splits if_splits)

lemma establish_session_state:
  assumes "establish_session env cfg client tc g = (res, client', g')"
  obtains st where "session_state client' = Some st" and "cs_trino_client st = tc"
    and "cs_cancel_key st = (connection_pid g, I32 (random_secret env))"
    and "cs_active_query_id st = next_slot g"
    and "connection_pid g' = connection_pid g + 1" and "next_slot g' = Suc (next_slot g)"
    and "metadata client' = metadata client" and "is_secure client' = is_secure client"
  using assms
  by (auto simp: establish_session_def new_pid_and_secret_key_def register_cancel_def Let_def
        drop_connection_state_def unregister_cancel_def split: option.splits)

lemma establish_session_sent:
  assumes "establish_session env cfg client tc g = (res, client', g')"
  shows "set (sent client') \<subseteq> insert (StartupFinished server_parameters) (set (sent client))"
  using assms
  by (auto simp: establish_session_def new_pid_and_secret_key_def register_cancel_def Let_def
      split: option.splits)

lemma tls_required_eq_has_tls: "tls_required cfg = has_tls cfg"
  by (simp add: tls_required_def has_tls_def)

lemma on_startup_challenge:
  assumes "on_startup env cfg client (StartupMessage params) g = (res, client', g')"
    and "CleartextPasswordChallenge \<in> set (sent client')" and "CleartextPasswordChallenge \<notin> set (sent client)"
  shows "auth cfg" and "g' = g" and "phase client' = AuthenticationInProgress"
    and "has_tls cfg \<Longrightarrow> is_secure client"
proof -
  have "auth cfg \<and> g' = g \<and> phase client' = AuthenticationInProgress \<and> (has_tls cfg \<longrightarrow> is_secure client)"
  proof (cases "auth cfg")
    case True
    with assms show ?thesis
      by (auto simp: on_startup_def Let_def tls_required_eq_has_tls split: option.splits if_splits)
  next
    case False
    let ?c = "client\<lparr>metadata := metadata client ++ map_of (rev params)\<rparr>"
    from False assms consider "client' = client" | "client' = ?c"
      | tc where "establish_session env cfg ?c tc g = (res, client', g')"
      by (auto simp: on_startup_def Let_def split: option.splits sum.splits)
    then show ?thesis
    proof cases
      case 3
      from establish_session_sent [OF this] assms(2,3) show ?thesis by auto
    qed (use assms in auto)
  qed
  then show "auth cfg" "g' = g" "phase client' = AuthenticationInProgress"
    "has_tls cfg \<Longrightarrow> is_secure client" by blast+
qed

section \<open>Properties\<close>

text \<open>C1. A cleartext password is asked for only where it is safe. If the policy accepted the
  configuration and the startup handler sends a password challenge, the client's connection is
  encrypted or every address the listener can bind is a loopback address; the handler leaves the
  gateway's shared state alone.\<close>

theorem challenge_only_when_safe:
  assumes "validate resolve cfg = Inr posture"
    and "on_startup env cfg client (StartupMessage params) g = (res, client', g')"
    and "CleartextPasswordChallenge \<in> set (sent client')" and "CleartextPasswordChallenge \<notin> set (sent client)"
  shows "auth cfg \<and> g' = g \<and> phase client' = AuthenticationInProgress
       \<and> (is_secure client \<or> (\<forall>ip \<in> set (bound_addresses resolve (listen_addr cfg)). is_loopback ip))"
proof -
  note ch = on_startup_challenge [OF assms(2-4)]
  have "\<not> has_tls cfg \<Longrightarrow> \<forall>ip \<in> set (bound_addresses resolve (listen_addr cfg)). is_loopback ip"
    using validate_safe [OF assms(1)] ch(1) by auto
  with ch show ?thesis by blast
qed

definition sample_env :: wire_env where
  "sample_env = \<lparr>negotiation_error = None, send_error = None, finish_error = None,
     build_error = (\<lambda>_. None), check_error = (\<lambda>_. None), random_secret = 7\<rparr>"

definition new_client :: "bool \<Rightarrow> 'r pg_client" where
  "new_client tls = \<lparr>is_secure = tls, metadata = (\<lambda>_. None), phase = AwaitingStartup,
     pid_and_secret_key = None, session_state = None, sent = []\<rparr>"

theorem challenge_only_when_safe_witness:
  "\<exists>client' g'. on_startup sample_env (default_config\<lparr>auth := True, trino_ssl := True\<rparr>)
       (new_client False :: str pg_client) (StartupMessage [(''user'', ''alice'')]) init_gateway = (Inr (), client', g')
     \<and> g' = init_gateway
     \<and> list_all is_loopback (bound_addresses (\<lambda>_. Inl []) ''127.0.0.1:5432'')"
proof -
  let ?cfg = "default_config\<lparr>auth := True, trino_ssl := True\<rparr>"
  have v: "validate (\<lambda>_. Inl []) ?cfg = Inr CleartextLoopback" by code_simp
  obtain r c' g' where s: "on_startup sample_env ?cfg (new_client False :: str pg_client)
      (StartupMessage [(''user'', ''alice'')]) init_gateway = (r, c', g')" by (metis prod_cases3)
  then have "r = Inr ()" "CleartextPasswordChallenge \<in> set (sent c')"
    by (auto simp: on_startup_def sample_env_def new_client_def default_config_def tls_required_def Let_def)
  moreover have "CleartextPasswordChallenge \<notin> set (sent (new_client False :: str pg_client))"
    by (simp add: new_client_def)
  ultimately show ?thesis
    using challenge_only_when_safe [OF v s] s by (auto simp: new_client_def default_config_def list_all_iff)
qed

text \<open>C2. Sessions opened with a password are verified and forwarded safely: under an accepted
  configuration with authentication, when the password message leads to a session, Trino accepted the
  credentials, the session's Trino client carries exactly the client's user name and password, and it
  uses TLS or the operator opted into plain HTTP. Otherwise the answer is an error, no session is
  stored and the shared state is unchanged.\<close>

theorem password_session_verified:
  assumes "validate resolve cfg = Inr posture" and "auth cfg" and "session_state client = None"
    and "on_startup env cfg client (PasswordMessageFamily (Inr pw)) g = (res, client', g')"
  shows "case session_state client' of
      Some st \<Rightarrow>
        cl_auth (cs_trino_client st) = Some (case metadata client ''user'' of Some u \<Rightarrow> u | None \<Rightarrow> [], Some pw)
        \<and> check_error env (cs_trino_client st) = None \<and> build_error env (cs_trino_client st) = None
        \<and> (cl_secure (cs_trino_client st) \<or> cl_auth_http_insecure (cs_trino_client st))
        \<and> cl_host (cs_trino_client st) = trino_host cfg
    | None \<Rightarrow> g' = g \<and> client' = client \<and> (\<exists>e. res = Inl e)"
proof -
  let ?user = "case metadata client ''user'' of Some u \<Rightarrow> u | None \<Rightarrow> []"
  show ?thesis
  proof (cases "build_trino_client env cfg (Some ?user) (Some pw)")
    case (Inl e)
    with assms(3,4) show ?thesis by (auto simp: on_startup_def Let_def)
  next
    case (Inr tc)
    note b = build_trino_client_settings [OF Inr]
    show ?thesis
    proof (cases "check_error env tc")
      case (Some e)
      with Inr assms(3,4) show ?thesis by (auto simp: on_startup_def Let_def)
    next
      case None
      with Inr assms(4) have est: "establish_session env cfg client tc g = (res, client', g')"
        by (simp add: on_startup_def Let_def)
      show ?thesis
        by (rule establish_session_state [OF est])
           (use b None validate_safe [OF assms(1)] assms(2) in auto)
    qed
  qed
qed

theorem password_session_verified_witness:
  "\<exists>res client' g' st. on_startup sample_env (default_config\<lparr>auth := True, trino_ssl := True\<rparr>)
       ((new_client False :: str pg_client)\<lparr>metadata := [''user'' \<mapsto> ''alice'']\<rparr>)
       (PasswordMessageFamily (Inr ''pw'')) init_gateway = (res, client', g')
     \<and> session_state client' = Some st \<and> cl_auth (cs_trino_client st) = Some (''alice'', Some ''pw'')
     \<and> (cl_secure (cs_trino_client st) \<or> cl_auth_http_insecure (cs_trino_client st))"
proof -
  let ?cfg = "default_config\<lparr>auth := True, trino_ssl := True\<rparr>"
  let ?c = "(new_client False :: str pg_client)\<lparr>metadata := [''user'' \<mapsto> ''alice'']\<rparr>"
  have v: "validate (\<lambda>_. Inl []) ?cfg = Inr CleartextLoopback" by code_simp
  obtain r c' g' where s: "on_startup sample_env ?cfg ?c (PasswordMessageFamily (Inr ''pw'')) init_gateway
      = (r, c', g')" by (metis prod_cases3)
  then obtain st where st: "session_state c' = Some st"
    by (auto simp: on_startup_def sample_env_def build_trino_client_def establish_session_def Let_def
        new_pid_and_secret_key_def register_cancel_def new_client_def)
  have "auth ?cfg" "session_state ?c = None" by (simp_all add: new_client_def)
  from password_session_verified [OF v this s] s st show ?thesis by (auto simp: new_client_def)
qed

end
