(* ===== verification/Connection_Lifecycle.thy ===== *)
theory Connection_Lifecycle
  imports Startup
begin

text \<open>
  The life of connections over the shared state: a connection is established
  (\<^verbatim>\<open>establish_session\<close>), its active query id is written and cleared while queries run, and it is
  dropped; \<^verbatim>\<open>CancelRequest\<close>s arrive at any moment. The steps are a relation over the gateway's
  state, the live connections and the number of connections established so far. The invariant ties
  the registry to the live connections; the properties say what a cancel request can reach.
\<close>

section \<open>Steps\<close>

record 'r world =
  gw :: gateway
  live :: "'r connection_state list"
  established :: nat

definition init_world :: "'r world" where
  "init_world = \<lparr>gw = init_gateway, live = [], established = 0\<rparr>"

inductive life_step :: "'r world \<Rightarrow> 'r world \<Rightarrow> bool" where
  connect: "session_state client = None \<Longrightarrow>
     establish_session env cfg client tc (gw w) = (res, client', g') \<Longrightarrow>
     session_state client' = Some st \<Longrightarrow>
     life_step w (w\<lparr>gw := g', live := st # live w, established := Suc (established w)\<rparr>)"
| run_query: "st \<in> set (live w) \<Longrightarrow>
     life_step w (w\<lparr>gw := set_active_query_id (Some (cs_active_query_id st)) qid (gw w)\<rparr>)"
| close: "st \<in> set (live w) \<Longrightarrow>
     life_step w (w\<lparr>gw := drop_connection_state st (gw w), live := remove1 st (live w)\<rparr>)"

inductive life_reach :: "'r world \<Rightarrow> bool" where
  start: "life_reach init_world"
| step: "life_reach w \<Longrightarrow> life_step w w' \<Longrightarrow> life_reach w'"

section \<open>The invariant\<close>

definition registry_view :: "'r connection_state list \<Rightarrow> cancel_key \<Rightarrow> cancel_entry option" where
  "registry_view cs =
     map_of (map (\<lambda>st. (cs_cancel_key st,
       \<lparr>ce_trino_client = cs_trino_client st, ce_active_query_id = cs_active_query_id st\<rparr>)) cs)"

definition life_inv :: "'r world \<Rightarrow> bool" where
  "life_inv w \<longleftrightarrow>
     connection_pid (gw w) = 1 + of_nat (established w) \<and>
     (\<forall>st \<in> set (live w). \<exists>i < established w. fst (cs_cancel_key st) = 1 + of_nat i) \<and>
     distinct (map (fst \<circ> cs_cancel_key) (live w)) \<and>
     registry (gw w) = registry_view (live w) \<and>
     distinct (map cs_active_query_id (live w)) \<and>
     (\<forall>st \<in> set (live w). cs_active_query_id st < next_slot (gw w))"

lemma life_inv_init: "life_inv init_world"
  by (simp add: life_inv_def init_world_def init_gateway_def registry_view_def)

lemma fresh_pid: "n < 2 ^ 32 \<Longrightarrow> i < n \<Longrightarrow> (word_of_nat i :: 32 word) \<noteq> word_of_nat n"
  by (simp add: word_of_nat_eq_iff take_bit_nat_eq_self)

lemma establish_session_gateway:
  assumes "session_state client = None" and "establish_session env cfg client tc g = (res, client', g')"
    and "session_state client' = Some st"
  shows "cs_cancel_key st = (connection_pid g, I32 (random_secret (env :: wire_env)))"
    and "cs_active_query_id st = next_slot g" and "cs_trino_client st = tc"
    and "connection_pid g' = connection_pid g + 1" and "next_slot g' = Suc (next_slot g)"
    and "registry g' = (registry g)(cs_cancel_key st \<mapsto>
           \<lparr>ce_trino_client = tc, ce_active_query_id = cs_active_query_id st\<rparr>)"
    and "slots g' = (slots g)(cs_active_query_id st := None)"
  using assms
  by (auto simp: establish_session_def new_pid_and_secret_key_def register_cancel_def Let_def
        registry_insert_def split: option.splits)

lemma distinct_map_remove1: "distinct (map f xs) \<Longrightarrow> distinct (map f (remove1 x xs))"
  by (induction xs) (auto dest: notin_set_remove1 set_remove1_subset [THEN subsetD])

lemma registry_view_None: "registry_view cs k = None \<longleftrightarrow> k \<notin> cs_cancel_key ` set cs"
  by (auto simp: registry_view_def map_of_eq_None_iff image_image)

lemma registry_view_remove1:
  assumes "distinct (map (fst \<circ> cs_cancel_key) cs)" and "st \<in> set cs"
  shows "registry_remove (cs_cancel_key st) (registry_view cs) = registry_view (remove1 st cs)"
  using assms
proof (induction cs)
  case (Cons c cs)
  show ?case
  proof (cases "c = st")
    case True
    with Cons.prems have "cs_cancel_key st \<notin> cs_cancel_key ` set cs"
      by (auto simp: image_iff)
    then have "registry_view cs (cs_cancel_key st) = None" by (simp add: registry_view_None)
    with True show ?thesis by (auto simp: registry_view_def registry_remove_def)
  next
    case False
    with Cons.prems have "fst (cs_cancel_key c) \<noteq> fst (cs_cancel_key st)" by auto
    then have "cs_cancel_key c \<noteq> cs_cancel_key st" by auto
    moreover have "registry_remove (cs_cancel_key st) (registry_view cs) = registry_view (remove1 st cs)"
      using Cons False by auto
    ultimately show ?thesis
      using False by (auto simp: registry_view_def registry_remove_def fun_eq_iff split: if_splits)
  qed
qed simp

lemma life_step_inv:
  assumes "life_step w w'" and "life_inv w" and "established w' \<le> 2 ^ 32"
  shows "life_inv w'"
  using assms
proof (induction rule: life_step.induct)
  case (connect client env cfg tc w res client' g' st)
  note e = establish_session_gateway [OF connect.hyps]
  from connect.prems have n: "established w < 2 ^ 32" by simp
  have "fst (cs_cancel_key st) \<notin> set (map (fst \<circ> cs_cancel_key) (live w))"
  proof
    assume "fst (cs_cancel_key st) \<in> set (map (fst \<circ> cs_cancel_key) (live w))"
    then obtain x where x: "x \<in> set (live w)" "fst (cs_cancel_key x) = connection_pid (gw w)"
      using e(1) by auto
    with connect.prems(1) obtain i where "i < established w" "(1 + of_nat i :: 32 word) = 1 + of_nat (established w)"
      by (force simp: life_inv_def)
    with fresh_pid [OF n] show False by simp
  qed
  moreover have "next_slot (gw w) \<notin> set (map cs_active_query_id (live w))"
    using connect.prems(1) by (auto simp: life_inv_def)
  ultimately show ?case
    using connect.prems(1) e by (auto simp: life_inv_def registry_view_def less_Suc_eq)
next
  case (run_query st w qid)
  then show ?case by (simp add: life_inv_def set_active_query_id_def)
next
  case (close st w)
  have sub: "set (remove1 st (live w)) \<subseteq> set (live w)" by (rule set_remove1_subset)
  have "registry_remove (cs_cancel_key st) (registry_view (live w)) = registry_view (remove1 st (live w))"
    using close by (intro registry_view_remove1) (auto simp: life_inv_def)
  with close sub show ?case
    by (auto simp: life_inv_def drop_connection_state_def unregister_cancel_def distinct_map_remove1)
qed

lemma life_step_established: "life_step w w' \<Longrightarrow> established w \<le> established w'"
  by (induction rule: life_step.induct) auto

lemma life_reach_inv: "life_reach w \<Longrightarrow> established w \<le> 2 ^ 32 \<Longrightarrow> life_inv w"
proof (induction rule: life_reach.induct)
  case start
  show ?case by (rule life_inv_init)
next
  case (step w w')
  then show ?case using life_step_established life_step_inv by (meson order_trans)
qed

lemma registry_view_live:
  assumes "distinct (map (fst \<circ> cs_cancel_key) cs)" and "st \<in> set cs"
  shows "registry_view cs (cs_cancel_key st) =
    Some \<lparr>ce_trino_client = cs_trino_client st, ce_active_query_id = cs_active_query_id st\<rparr>"
proof -
  have "distinct (map cs_cancel_key cs)"
    using assms(1) by (metis distinct_map map_map)
  then show ?thesis
    using assms(2) unfolding registry_view_def by (intro map_of_is_SomeI) (simp_all add: comp_def)
qed

lemma on_cancel_request_live:
  assumes "life_inv w" and "st \<in> set (live w)"
  shows "on_cancel_request (fst (cs_cancel_key st)) (snd (cs_cancel_key st)) (gw w) =
    map_option (\<lambda>q. (cs_trino_client st, q)) (slots (gw w) (cs_active_query_id st))"
  using assms registry_view_live [of "live w" st]
  by (auto simp: on_cancel_request_def lookup_cancel_def life_inv_def split: option.split)

section \<open>Properties\<close>

text \<open>C8. Cancel requests are routed to the right query. In every state reachable with at most
  \<open>2^32\<close> connections ever established, a request with a live connection's key cancels exactly the
  query recorded in that connection's own cell, on its own Trino client, and does nothing when the
  cell is empty; a request with any other key does nothing.\<close>

theorem cancel_reaches_own_query:
  assumes "life_reach w" and "established w \<le> 2 ^ 32"
  shows "(\<forall>st \<in> set (live w).
            on_cancel_request (fst (cs_cancel_key st)) (snd (cs_cancel_key st)) (gw w) =
            map_option (\<lambda>q. (cs_trino_client st, q)) (slots (gw w) (cs_active_query_id st)))
       \<and> (\<forall>pid secret. (pid, secret) \<notin> cs_cancel_key ` set (live w) \<longrightarrow>
            on_cancel_request pid secret (gw w) = None)"
proof -
  from assms have inv: "life_inv w" by (rule life_reach_inv)
  have "on_cancel_request pid secret (gw w) = None"
    if "(pid, secret) \<notin> cs_cancel_key ` set (live w)" for pid secret
    using inv that registry_view_None [of "live w" "(pid, secret)"]
    by (simp add: on_cancel_request_def lookup_cancel_def life_inv_def)
  with on_cancel_request_live [OF inv] show ?thesis by blast
qed

lemma life_reach_connect:
  assumes "life_reach (w :: 'r world)"
  obtains w' :: "'r world" and st where "life_reach w'" and "live w' = st # live w"
    and "established w' = Suc (established w)"
    and "cs_cancel_key st = (connection_pid (gw w), I32 (random_secret (env :: wire_env)))"
    and "connection_pid (gw w') = connection_pid (gw w) + 1"
proof -
  obtain r c' g' where e: "establish_session env cfg (new_client False :: 'r pg_client) tc (gw w) = (r, c', g')"
    by (metis prod_cases3)
  obtain st where st: "session_state c' = Some st" "cs_cancel_key st = (connection_pid (gw w), I32 (random_secret (env :: wire_env)))"
    "connection_pid g' = connection_pid (gw w) + 1"
    by (rule establish_session_state [OF e]) (rule that)
  have "life_step w (w\<lparr>gw := g', live := st # live w, established := Suc (established w)\<rparr>)"
    by (rule life_step.connect [OF _ e st(1)]) (simp add: new_client_def)
  from life_reach.step [OF assms this] show ?thesis
    using st by (intro that) auto
qed

theorem cancel_reaches_own_query_witness:
  "\<exists>(w :: str world) st. life_reach w \<and> live w = [st] \<and>
     on_cancel_request (fst (cs_cancel_key st)) (snd (cs_cancel_key st)) (gw w) =
       map_option (\<lambda>q. (cs_trino_client st, q)) (slots (gw w) (cs_active_query_id st))
     \<and> on_cancel_request 99 (I32 99) (gw w) = None"
proof -
  obtain w :: "str world" and st where w: "life_reach w" "live w = [st]" "established w = 1"
      "cs_cancel_key st = (1, I32 7)"
    by (rule life_reach_connect [OF life_reach.start, where env = sample_env])
       (auto simp: init_world_def init_gateway_def sample_env_def)
  then have "established w \<le> 2 ^ 32" and "(99, I32 99) \<notin> cs_cancel_key ` set (live w)" by simp_all
  with cancel_reaches_own_query [OF w(1)] w show ?thesis by (metis list.set_intros(1))
qed

text \<open>Isolation between connections: while at most \<open>2^32\<close> connections were established, a query
  starting or ending on one connection, or that connection closing, never changes what a cancel
  request for another live connection does.\<close>

theorem cancel_isolated_between_connections:
  assumes "life_reach w" and "established w \<le> 2 ^ 32"
    and "st \<in> set (live w)" and "st' \<in> set (live w)" and "cs_cancel_key st \<noteq> cs_cancel_key st'"
  shows "on_cancel_request (fst (cs_cancel_key st')) (snd (cs_cancel_key st'))
           (set_active_query_id (Some (cs_active_query_id st)) qid (gw w))
         = on_cancel_request (fst (cs_cancel_key st')) (snd (cs_cancel_key st')) (gw w)
       \<and> on_cancel_request (fst (cs_cancel_key st')) (snd (cs_cancel_key st')) (drop_connection_state st (gw w))
         = on_cancel_request (fst (cs_cancel_key st')) (snd (cs_cancel_key st')) (gw w)"
proof -
  from assms(1,2) have inv: "life_inv w" by (rule life_reach_inv)
  have "cs_active_query_id st \<noteq> cs_active_query_id st'"
    using inv assms(3-5) by (auto simp: life_inv_def distinct_map inj_on_def)
  then have "on_cancel_request (fst (cs_cancel_key st')) (snd (cs_cancel_key st'))
      (set_active_query_id (Some (cs_active_query_id st)) qid (gw w))
    = on_cancel_request (fst (cs_cancel_key st')) (snd (cs_cancel_key st')) (gw w)"
    using inv assms(4) registry_view_live [of "live w" st']
    by (simp add: on_cancel_request_def lookup_cancel_def set_active_query_id_def life_inv_def)
  moreover have "registry_remove (cs_cancel_key st) (registry (gw w)) (cs_cancel_key st') = registry (gw w) (cs_cancel_key st')"
    using assms(5) by (intro reg.lookup_remove_other) auto
  then have "on_cancel_request (fst (cs_cancel_key st')) (snd (cs_cancel_key st')) (drop_connection_state st (gw w))
    = on_cancel_request (fst (cs_cancel_key st')) (snd (cs_cancel_key st')) (gw w)"
    by (simp add: on_cancel_request_def lookup_cancel_def drop_connection_state_def unregister_cancel_def
        split: option.split)
  ultimately show ?thesis by blast
qed

theorem cancel_isolated_between_connections_witness:
  "\<exists>(w :: str world) st st'. life_reach w \<and> live w = [st', st] \<and>
     on_cancel_request (fst (cs_cancel_key st')) (snd (cs_cancel_key st')) (drop_connection_state st (gw w))
       = on_cancel_request (fst (cs_cancel_key st')) (snd (cs_cancel_key st')) (gw w)"
proof -
  obtain w1 :: "str world" and st where w1: "life_reach w1" "live w1 = [st]" "established w1 = 1"
      "cs_cancel_key st = (1, I32 7)" "connection_pid (gw w1) = 2"
    by (rule life_reach_connect [OF life_reach.start, where env = sample_env])
       (auto simp: init_world_def init_gateway_def sample_env_def)
  obtain w :: "str world" and st' where w: "life_reach w" "live w = [st', st]" "established w = 2"
      "cs_cancel_key st' = (2, I32 7)"
    by (rule life_reach_connect [OF w1(1), where env = sample_env])
       (auto simp: w1 sample_env_def)
  have "established w \<le> 2 ^ 32" "cs_cancel_key st \<noteq> cs_cancel_key st'" using w w1 by simp_all
  with cancel_isolated_between_connections [OF w(1), of st st'] w show ?thesis by fastforce
qed

text \<open>The process id counter: in every reachable state the next connection's id is one plus the
  number of connections established, modulo \<open>2^32\<close>; it is zero exactly when that number plus one is a
  multiple of \<open>2^32\<close>.\<close>

theorem connection_pid_wraps:
  assumes "life_reach w"
  shows "connection_pid (gw w) = of_nat (Suc (established w))
       \<and> (connection_pid (gw w) = 0 \<longleftrightarrow> 2 ^ 32 dvd Suc (established w))"
proof -
  have "connection_pid (gw w) = 1 + of_nat (established w)"
    using assms
  proof (induction rule: life_reach.induct)
    case start
    show ?case by (simp add: init_world_def init_gateway_def)
  next
    case (step w w')
    from step.hyps(2) step.IH show ?case
      by (induction rule: life_step.induct)
         (auto dest: establish_session_gateway(4) simp: set_active_query_id_def drop_connection_state_def
            unregister_cancel_def)
  qed
  then have "connection_pid (gw w) = of_nat (Suc (established w))" by simp
  moreover have "((of_nat (Suc (established w)) :: 32 word) = 0) = (2 ^ 32 dvd Suc (established w))"
    using word_of_nat_eq_0_iff [where 'a = 32, of "Suc (established w)"] by simp
  ultimately show ?thesis by simp
qed

theorem connection_pid_wraps_witness:
  "connection_pid (gw (init_world :: str world)) = of_nat (Suc (established (init_world :: str world)))
   \<and> (connection_pid (gw (init_world :: str world)) = 0 \<longleftrightarrow> 2 ^ 32 dvd Suc (established (init_world :: str world)))"
  by (rule connection_pid_wraps [OF life_reach.start])

end
