(* ===== verification/Types_Map.thy ===== *)
theory Types_Map
  imports Gateway_Prelude
begin

text \<open>
  Model of the type mapping of \<^verbatim>\<open>src/types.rs\<close>: the PostgreSQL types of \<^verbatim>\<open>pgwire::api::Type\<close> that the
  gateway names, the mapping from Trino's type names (parametric and array types included) and the
  mapping from scalar to array types.
\<close>

section \<open>PostgreSQL types\<close>

text \<open>\<open>OtherType\<close> stands for the types the gateway never names, given by their object id.\<close>

datatype pg_type =
    BOOL | INT2 | INT4 | INT8 | FLOAT4 | FLOAT8 | NUMERIC | VARCHAR | BPCHAR | BYTEA | DATE | TIME
  | TIMETZ | TIMESTAMP | TIMESTAMPTZ | INTERVAL | JSONB | UUID | INET | TEXT
  | BOOL_ARRAY | INT2_ARRAY | INT4_ARRAY | INT8_ARRAY | FLOAT4_ARRAY | FLOAT8_ARRAY | NUMERIC_ARRAY
  | VARCHAR_ARRAY | BPCHAR_ARRAY | BYTEA_ARRAY | DATE_ARRAY | TIME_ARRAY | TIMETZ_ARRAY
  | TIMESTAMP_ARRAY | TIMESTAMPTZ_ARRAY | INTERVAL_ARRAY | JSONB_ARRAY | UUID_ARRAY | INET_ARRAY
  | TEXT_ARRAY
  | NAME | UNKNOWN | OtherType nat

section \<open>The mapping\<close>

definition strip_type_params :: "str \<Rightarrow> str" where
  "strip_type_params normalized =
     (case (find_char (CHR ''('') normalized, rfind_char (CHR '')'') normalized) of
        (Some open, Some close) \<Rightarrow>
          (if open < close then trim (take open normalized @ drop (close + 1) normalized)
           else trim normalized)
      | _ \<Rightarrow> trim normalized)"

definition scalar_to_array :: "pg_type \<Rightarrow> pg_type" where
  "scalar_to_array scalar =
     (case scalar of
        BOOL \<Rightarrow> BOOL_ARRAY | INT2 \<Rightarrow> INT2_ARRAY | INT4 \<Rightarrow> INT4_ARRAY | INT8 \<Rightarrow> INT8_ARRAY
      | FLOAT4 \<Rightarrow> FLOAT4_ARRAY | FLOAT8 \<Rightarrow> FLOAT8_ARRAY | NUMERIC \<Rightarrow> NUMERIC_ARRAY
      | VARCHAR \<Rightarrow> VARCHAR_ARRAY | BPCHAR \<Rightarrow> BPCHAR_ARRAY | BYTEA \<Rightarrow> BYTEA_ARRAY
      | DATE \<Rightarrow> DATE_ARRAY | TIME \<Rightarrow> TIME_ARRAY | TIMETZ \<Rightarrow> TIMETZ_ARRAY
      | TIMESTAMP \<Rightarrow> TIMESTAMP_ARRAY | TIMESTAMPTZ \<Rightarrow> TIMESTAMPTZ_ARRAY
      | INTERVAL \<Rightarrow> INTERVAL_ARRAY | JSONB \<Rightarrow> JSONB_ARRAY | UUID \<Rightarrow> UUID_ARRAY
      | INET \<Rightarrow> INET_ARRAY | TEXT \<Rightarrow> TEXT_ARRAY
      | _ \<Rightarrow> TEXT_ARRAY)"

text \<open>The match on the stripped name.\<close>

definition base_name_to_pg :: "str \<Rightarrow> pg_type" where
  "base_name_to_pg b =
     (if b = ''boolean'' then BOOL
      else if b = ''tinyint'' \<or> b = ''smallint'' then INT2
      else if b = ''integer'' then INT4
      else if b = ''bigint'' then INT8
      else if b = ''real'' then FLOAT4
      else if b = ''double'' then FLOAT8
      else if b = ''decimal'' then NUMERIC
      else if b = ''varchar'' then VARCHAR
      else if b = ''char'' then BPCHAR
      else if b = ''varbinary'' then BYTEA
      else if b = ''date'' then DATE
      else if b = ''time'' then TIME
      else if b = ''time with time zone'' then TIMETZ
      else if b = ''timestamp'' then TIMESTAMP
      else if b = ''timestamp with time zone'' then TIMESTAMPTZ
      else if b = ''interval'' \<or> b = ''interval year to month'' \<or> b = ''interval day to second'' then INTERVAL
      else if b = ''json'' then JSONB
      else if b = ''uuid'' then UUID
      else if b = ''ipaddress'' then INET
      else if b = ''map'' \<or> b = ''row'' then JSONB
      else TEXT)"

text \<open>
  The recursion descends into the element type of an array. Lower-casing may lengthen a string, but
  it neither adds nor removes an opening parenthesis, and each level consumes one.
\<close>

definition parens :: "str \<Rightarrow> nat" where
  "parens s = count_list s (CHR ''('')"

function trino_type_to_pg :: "str \<Rightarrow> pg_type" where
  "trino_type_to_pg trino_type =
     (let normalized = to_lowercase (trim trino_type) in
      if starts_with normalized ''array('' \<and> ends_with normalized '')''
      then scalar_to_array (trino_type_to_pg (drop 6 (take (length normalized - 1) normalized)))
      else base_name_to_pg (strip_type_params normalized))"
  by pat_completeness auto

section \<open>Termination\<close>

lemma parens_append: "parens (a @ b) = parens a + parens b"
  by (simp add: parens_def)

lemma parens_take: "parens (take n s) \<le> parens s"
  by (metis append_take_drop_id le_add1 parens_append)

lemma parens_drop: "parens (drop n s) \<le> parens s"
  by (metis append_take_drop_id le_add2 parens_append)

lemma parens_sublist: "sublist a b \<Longrightarrow> parens a \<le> parens b"
  by (auto simp: sublist_def parens_append)

lemma ascii_lower_eq_paren: "ascii_lower c = CHR ''('' \<longleftrightarrow> c = CHR ''(''"
  by (auto simp: ascii_lower_def char_of_eq_iff take_bit_nat_eq_self simp flip: of_char_eq_iff [where 'a = nat])

lemma lower_special_parens:
  "special_case lower_special s = Some (k, v) \<Longrightarrow> parens (bytes v) = 0"
  by (auto simp: special_case_def lower_special_def parens_def bytes_def char_of_eq_iff
      split: if_splits)

lemma parens_case_map: "parens (case_map lower_special ascii_lower s) \<le> parens s"
proof (induction lower_special ascii_lower s rule: case_map.induct)
  case (2 c cs)
  show ?case
  proof (cases "byte c < 128")
    case True
    with 2(1) show ?thesis by (simp add: parens_def ascii_lower_eq_paren)
  next
    case False
    show ?thesis
    proof (cases "special_case lower_special (c # cs)")
      case None
      have "parens (case_map lower_special ascii_lower cs) \<le> parens cs"
        using 2(2) False None by blast
      with False None show ?thesis by (simp add: parens_def)
    next
      case (Some p)
      obtain k v where p: "p = (k, v)" by force
      have "parens (case_map lower_special ascii_lower (drop (length k - 1) cs)) \<le> parens (drop (length k - 1) cs)"
        using 2(3) False Some p by blast
      also have "\<dots> \<le> parens (c # cs)" using parens_drop [of "length k - 1" cs] by (simp add: parens_def)
      finally show ?thesis
        using False Some p lower_special_parens [of "c # cs" k v] by (simp add: parens_append)
    qed
  qed
qed (simp add: parens_def)

lemma parens_normalized: "parens (to_lowercase (trim s)) \<le> parens s"
  using parens_case_map [of "trim s"] parens_sublist [OF trim_sublist [of s]]
  by (simp add: to_lowercase_def)

lemma array_inner_parens:
  assumes "starts_with n ''array(''"
  shows "parens (drop 6 (take (length n - 1) n)) < parens n"
proof -
  from assms obtain r where r: "n = ''array('' @ r" by (auto simp: starts_with_def prefix_def)
  have "drop 6 (take (length n - 1) n) = take (length r - 1) r"
    by (cases r) (simp_all add: r)
  then show ?thesis using parens_take [of "length r - 1" r] by (simp add: r parens_def)
qed

termination trino_type_to_pg
proof (relation "measure parens")
  fix t n :: str
  assume n: "n = to_lowercase (trim t)" and a: "starts_with n ''array('' \<and> ends_with n '')''"
  from a have "parens (drop 6 (take (length n - 1) n)) < parens n" by (intro array_inner_parens) blast
  also have "\<dots> \<le> parens t" by (simp add: n parens_normalized)
  finally show "(drop 6 (take (length n - 1) n), t) \<in> measure parens" by simp
qed simp

declare trino_type_to_pg.simps [simp del]

section \<open>White space in ASCII text\<close>

text \<open>On ASCII text trimming is two \<open>dropWhile\<close>s.\<close>

definition rstrip :: "str \<Rightarrow> str" where
  "rstrip s = rev (dropWhile ws_ascii (rev s))"

lemma strip_front_ascii:
  assumes "is_ascii s" shows "strip_front (ws_len_of tab) s = dropWhile ws_ascii s"
  using assms
proof (induction s)
  case (Cons c s)
  then show ?case
    by (auto simp: is_ascii_def strip_front.simps [of _ "c # s"] ws_len_of_def)
qed (simp add: strip_front.simps [of _ "[]"])

lemma is_ascii_dropWhile: "is_ascii s \<Longrightarrow> is_ascii (dropWhile P s)"
  by (auto simp: is_ascii_def list_all_iff dest: set_dropWhileD)

lemma is_ascii_rev: "is_ascii (rev s) = is_ascii s"
  by (simp add: is_ascii_def list_all_iff)

lemma trim_ascii: "is_ascii s \<Longrightarrow> trim s = rstrip (dropWhile ws_ascii s)"
  by (simp add: trim_def trim_start_def trim_end_def ws_len_def ws_len_end_def strip_front_ascii
      is_ascii_dropWhile is_ascii_rev rstrip_def)

lemma dropWhile_dropWhile_append: "dropWhile P (dropWhile P xs @ ys) = dropWhile P (xs @ ys)"
  by (induction xs) auto

lemma rstrip_prefix: "prefix (rstrip s) s"
  by (metis dropWhile_eq_drop rev_rev_ident rstrip_def suffix_drop suffix_to_prefix)

lemma rstrip_stop: "rstrip s \<noteq> [] \<Longrightarrow> \<not> ws_ascii (last (rstrip s))"
  by (simp add: rstrip_def last_rev hd_dropWhile)

lemma rstrip_id: "s = [] \<or> \<not> ws_ascii (last s) \<Longrightarrow> rstrip s = s"
  by (cases s rule: rev_cases) (auto simp: rstrip_def)

lemma rstrip_append_rstrip: "rstrip (u @ rstrip b) = rstrip (u @ b)"
  by (simp add: rstrip_def dropWhile_dropWhile_append)

lemma trim_solid: "is_ascii s \<Longrightarrow> list_all (\<lambda>c. \<not> ws_ascii c) s \<Longrightarrow> trim s = s"
proof -
  assume s: "is_ascii s" "list_all (\<lambda>c. \<not> ws_ascii c) s"
  then have "dropWhile ws_ascii s = s" by (cases s) auto
  moreover have "rstrip s = s" using s(2) by (intro rstrip_id) (metis last_in_set list_all_iff)
  ultimately show "trim s = s" using s(1) by (simp add: trim_ascii)
qed

lemma rstrip_append_solid: "\<not> ws_ascii x \<Longrightarrow> rstrip (u @ x # b) = u @ x # rstrip b"
  by (simp add: rstrip_def dropWhile_append)

lemma lower_ws: "ws_ascii (ascii_lower c) = ws_ascii c"
  by (auto simp: ascii_lower_def ws_ascii_def of_char_of)

lemma lower_lower: "ascii_lower (ascii_lower c) = ascii_lower c"
  by (auto simp: ascii_lower_def of_char_of)

lemma dropWhile_lower: "dropWhile ws_ascii (map ascii_lower s) = map ascii_lower (dropWhile ws_ascii s)"
  by (simp add: dropWhile_map comp_def lower_ws)

lemma is_ascii_lower: "is_ascii s \<Longrightarrow> is_ascii (map ascii_lower s)"
  by (auto simp: is_ascii_def list_all_iff ascii_lower_def of_char_of)

lemma trim_lower: "is_ascii s \<Longrightarrow> trim (map ascii_lower s) = map ascii_lower (trim s)"
  by (simp add: trim_ascii is_ascii_lower dropWhile_lower rstrip_def rev_map)

lemma is_ascii_trim: "is_ascii s \<Longrightarrow> is_ascii (trim s)"
  using trim_sublist [of s] by (metis is_ascii_def list_all_append sublist_def)

lemma normalize_ascii: "is_ascii s \<Longrightarrow> to_lowercase (trim s) = map ascii_lower (trim s)"
  by (simp add: to_lowercase_ascii is_ascii_trim to_ascii_lowercase_def)

lemma rstrip_rstrip: "rstrip (rstrip s) = rstrip s"
  using rstrip_append_rstrip [of "[]" s] by simp

lemma trim_idem: "is_ascii s \<Longrightarrow> trim (trim s) = trim s"
proof -
  assume a: "is_ascii s"
  let ?d = "dropWhile ws_ascii s"
  have "dropWhile ws_ascii (rstrip ?d) = rstrip ?d"
  proof (cases "rstrip ?d")
    case (Cons c r)
    with rstrip_prefix [of ?d] obtain z where d: "?d = c # z" by (auto simp: prefix_def)
    then have "\<not> ws_ascii c" using hd_dropWhile [of ws_ascii s] by (metis list.distinct(1) list.sel(1))
    with Cons show ?thesis by simp
  qed simp
  then show ?thesis using a is_ascii_trim [OF a] by (simp add: trim_ascii rstrip_rstrip)
qed

section \<open>Lemmas on the mapping\<close>

lemma trino_type_to_pg_lower: "is_ascii t \<Longrightarrow> trino_type_to_pg (map ascii_lower t) = trino_type_to_pg t"
  by (subst (1 2) trino_type_to_pg.simps)
     (simp add: trim_lower to_lowercase_ascii to_ascii_lowercase_def is_ascii_trim is_ascii_lower comp_def lower_lower)

lemma trim_around_params:
  assumes "is_ascii (a @ ''('' @ q @ '')'' @ b)"
  shows "trim (a @ ''('' @ q @ '')'' @ b) = dropWhile ws_ascii a @ ''('' @ q @ '')'' @ rstrip b"
proof -
  have p: "\<not> ws_ascii (CHR ''('')" "\<not> ws_ascii (CHR '')'')" by (simp_all add: ws_ascii_def)
  then have "dropWhile ws_ascii (a @ ''('' @ q @ '')'' @ b) = dropWhile ws_ascii a @ ''('' @ q @ '')'' @ b"
    by (simp add: dropWhile_append)
  also have "rstrip \<dots> = dropWhile ws_ascii a @ ''('' @ q @ '')'' @ rstrip b"
    using rstrip_append_solid [OF p(2), of "dropWhile ws_ascii a @ ''('' @ q" b] by simp
  finally show ?thesis using assms by (simp only: trim_ascii)
qed

lemma strip_type_params_span:
  assumes "CHR ''('' \<notin> set a" and "CHR '')'' \<notin> set b"
  shows "strip_type_params (a @ ''('' @ q @ '')'' @ b) = trim (a @ b)"
proof -
  have "find_char (CHR ''('') (a @ ''('' @ q @ '')'' @ b) = Some (length a)"
    using find_char_append [OF assms(1)] by simp
  moreover have "rfind_char (CHR '')'') (a @ ''('' @ q @ '')'' @ b) = Some (length a + length q + 1)"
    using rfind_char_append [OF assms(2), of "a @ ''('' @ q"] by simp
  ultimately show ?thesis by (simp add: strip_type_params_def)
qed

lemma not_array_prefix:
  assumes "CHR ''('' \<notin> set a" and "a \<noteq> ''array''"
  shows "\<not> starts_with (a @ ''('' @ r) ''array(''"
proof
  assume "starts_with (a @ ''('' @ r) ''array(''"
  then obtain z where "a @ CHR ''('' # r = ''array'' @ CHR ''('' # z"
    by (auto simp: starts_with_def prefix_def)
  then have "find_char (CHR ''('') (a @ CHR ''('' # r) = Some 5" "a = take (length a) (''array'' @ CHR ''('' # z)"
    by (simp, metis append_eq_conv_conj)
  with find_char_append [OF assms(1), of r] have "a = take 5 (''array'' @ CHR ''('' # z)" by simp
  with assms(2) show False by simp
qed

lemma normalized_params:
  assumes "is_ascii (a @ ''('' @ q @ '')'' @ b)"
  shows "to_lowercase (trim (a @ ''('' @ q @ '')'' @ b)) =
    map ascii_lower (dropWhile ws_ascii a) @ ''('' @ map ascii_lower q @ '')'' @ map ascii_lower (rstrip b)"
proof -
  have "ascii_lower (CHR ''('') = CHR ''(''" "ascii_lower (CHR '')'') = CHR '')''"
    by (simp_all add: ascii_lower_def)
  then show ?thesis using normalize_ascii [OF assms] trim_around_params [OF assms] by simp
qed

lemma ascii_lower_eq_close: "ascii_lower c = CHR '')'' \<longleftrightarrow> c = CHR '')''"
  by (auto simp: ascii_lower_def char_of_eq_iff take_bit_nat_eq_self simp flip: of_char_eq_iff [where 'a = nat])

lemma paren_notin_lower: "x \<in> {CHR ''('', CHR '')''} \<Longrightarrow> x \<notin> set s \<Longrightarrow> x \<notin> set (map ascii_lower s)"
  using ascii_lower_eq_paren ascii_lower_eq_close by (metis empty_iff imageE insertE list.set_map)

lemma no_paren_not_array: "CHR ''('' \<notin> set n \<Longrightarrow> \<not> starts_with n ''array(''"
  by (auto simp: starts_with_def prefix_def)

lemma set_rstrip: "set (rstrip s) \<subseteq> set s"
  by (rule set_mono_prefix [OF rstrip_prefix])

lemma trino_type_to_pg_plain:
  assumes "is_ascii s" and "CHR ''('' \<notin> set s"
  shows "trino_type_to_pg s = base_name_to_pg (map ascii_lower (trim s))"
proof -
  let ?n = "map ascii_lower (trim s)"
  have "set (trim s) \<subseteq> set s" using trim_sublist [of s] by (rule set_mono_sublist)
  then have p: "CHR ''('' \<notin> set ?n" using assms(2) by (intro paren_notin_lower) auto
  then have "strip_type_params ?n = trim ?n"
    by (simp add: strip_type_params_def find_char_None_iff [THEN iffD2])
  also have "\<dots> = ?n" using assms(1) by (simp add: trim_lower is_ascii_trim trim_idem)
  finally show ?thesis
    using assms(1) no_paren_not_array [OF p] by (simp add: trino_type_to_pg.simps [of s] normalize_ascii)
qed

text \<open>Arrays map elementwise, and nested arrays fall back to a text array.\<close>

lemma array_maps_elementwise:
  assumes "is_ascii t"
  shows "trino_type_to_pg (''array('' @ t @ '')'') = scalar_to_array (trino_type_to_pg t)
       \<and> trino_type_to_pg (''array('' @ (''array('' @ t @ '')'') @ '')'') = TEXT_ARRAY"
proof -
  have one: "trino_type_to_pg (''array('' @ u @ '')'') = scalar_to_array (trino_type_to_pg u)"
    if "is_ascii u" for u
  proof -
    have "to_lowercase (trim (''array'' @ ''('' @ u @ '')'' @ [])) =
        map ascii_lower (dropWhile ws_ascii ''array'') @ ''('' @ map ascii_lower u @ '')'' @ map ascii_lower (rstrip [])"
      by (rule normalized_params) (use that in \<open>simp add: is_ascii_def\<close>)
    also have "map ascii_lower (dropWhile ws_ascii ''array'') = ''array''" by code_simp
    also have "map ascii_lower (rstrip []) = []" by code_simp
    finally have n: "to_lowercase (trim (''array('' @ u @ '')'')) = ''array('' @ map ascii_lower u @ '')''" by simp
    have "trino_type_to_pg (''array('' @ u @ '')'') = scalar_to_array (trino_type_to_pg (map ascii_lower u))"
      by (subst trino_type_to_pg.simps) (simp add: n [simplified] starts_with_def ends_with_def)
    with that show ?thesis by (simp add: trino_type_to_pg_lower)
  qed
  have "scalar_to_array (scalar_to_array ty) = TEXT_ARRAY" for ty
    by (cases ty) (simp_all add: scalar_to_array_def)
  moreover have "is_ascii (''array('' @ t @ '')'')" using assms by (simp add: is_ascii_def)
  ultimately show ?thesis using one [OF assms] one [of "''array('' @ t @ '')''"] by simp
qed

section \<open>Properties\<close>

text \<open>C34. Type parameters of a scalar type do not change the mapping, wherever they stand: an ASCII type name
  \<open>a(q)b\<close> whose part \<open>a\<close> is not blank and is not \<open>array\<close>, with no further parenthesis in \<open>a\<close> and \<open>b\<close>, maps like
  \<open>ab\<close>, whatever the parameters \<open>q\<close> hold (nested parentheses included). So \<open>timestamp(6) with time zone\<close> keeps its time zone and \<open>decimal(10,2)\<close> is numeric.\<close>

theorem type_params_ignored:
  assumes "is_ascii (a @ ''('' @ q @ '')'' @ b)"
    and "CHR ''('' \<notin> set a" and "CHR ''('' \<notin> set b" and "CHR '')'' \<notin> set b"
    and "\<exists>x \<in> set a. \<not> ws_ascii x" and "to_ascii_lowercase (trim_start a) \<noteq> ''array''"
  shows "trino_type_to_pg (a @ ''('' @ q @ '')'' @ b) = trino_type_to_pg (a @ b)"
proof -
  let ?a = "map ascii_lower (dropWhile ws_ascii a)" and ?b = "map ascii_lower (rstrip b)"
  have asc: "is_ascii a" "is_ascii b" "is_ascii (a @ b)" using assms(1) by (simp_all add: is_ascii_def)
  have a: "CHR ''('' \<notin> set ?a" using assms(2) by (intro paren_notin_lower) (auto dest: set_dropWhileD)
  have b: "CHR '')'' \<notin> set ?b" using assms(4) set_rstrip by (intro paren_notin_lower) auto
  have "?a \<noteq> ''array''"
    using assms(6) asc by (simp add: to_ascii_lowercase_def trim_start_def ws_len_def strip_front_ascii)
  from not_array_prefix [OF a this] strip_type_params_span [OF a b]
  have "trino_type_to_pg (a @ ''('' @ q @ '')'' @ b) = base_name_to_pg (trim (?a @ ?b))"
    by (simp add: trino_type_to_pg.simps [of "a @ _"] normalized_params [OF assms(1), simplified])
  also have "?a @ ?b = map ascii_lower (dropWhile ws_ascii a @ rstrip b)" by simp
  also have "trim \<dots> = map ascii_lower (trim (dropWhile ws_ascii a @ rstrip b))"
    using asc set_rstrip [of b] by (intro trim_lower) (auto simp: is_ascii_def list_all_iff dest: set_dropWhileD)
  also have "trim (dropWhile ws_ascii a @ rstrip b) = trim (a @ b)"
  proof -
    have "is_ascii (dropWhile ws_ascii a @ rstrip b)"
      using asc set_rstrip [of b] by (auto simp: is_ascii_def list_all_iff dest: set_dropWhileD)
    moreover have "dropWhile ws_ascii (dropWhile ws_ascii a @ rstrip b) = dropWhile ws_ascii a @ rstrip b"
      using assms(5) by (auto simp: dropWhile_dropWhile_append dropWhile_append1)
    moreover have "dropWhile ws_ascii (a @ b) = dropWhile ws_ascii a @ b"
      using assms(5) by (auto simp: dropWhile_append1)
    ultimately show ?thesis using asc by (simp add: trim_ascii rstrip_append_rstrip)
  qed
  finally show ?thesis
    using assms(2,3) asc by (simp add: trino_type_to_pg_plain)
qed

theorem type_params_ignored_witness:
  "trino_type_to_pg (''timestamp'' @ ''('' @ ''6'' @ '')'' @ '' with time zone'') = TIMESTAMPTZ"
proof -
  have "trino_type_to_pg (''timestamp'' @ ''('' @ ''6'' @ '')'' @ '' with time zone'')
      = trino_type_to_pg (''timestamp'' @ '' with time zone'')"
    by (rule type_params_ignored; code_simp)
  also have "\<dots> = TIMESTAMPTZ" by code_simp
  finally show ?thesis .
qed

end
