(* ===== verification/Json_Model.thy ===== *)
theory Json_Model
  imports Gateway_Prelude
begin

text \<open>
  The values that come back from Trino: JSON values (\<^verbatim>\<open>serde_json::Value\<close>, whose constructors the
  gateway matches on) and IEEE doubles. A \<^verbatim>\<open>serde_json::Number\<close> is opaque to the gateway, which reads
  it through four methods only; it is represented by the answers of these methods.
\<close>

section \<open>IEEE doubles\<close>

text \<open>
  A finite double is \<open>(-1)^neg * mant * 2^expo\<close>; the sign is kept for zero. Any double has such a
  representation with \<open>mant < 2^53\<close> and \<open>-1074 \<le> expo \<le> 971\<close>.
\<close>

datatype f64 = NaN | Inf bool | Fin (neg: bool) (mant: nat) (expo: int)

definition f64_num :: "bool \<Rightarrow> nat \<Rightarrow> int" where
  "f64_num n m = (if n then - int m else int m)"

text \<open>\<open>f64::fract(f) == 0.0\<close>: false for NaN and the infinities (their fract is NaN).\<close>

fun f64_integral :: "f64 \<Rightarrow> bool" where
  "f64_integral (Fin n m e) = (0 \<le> e \<or> m mod 2 ^ nat (- e) = 0)"
| "f64_integral _ = False"

text \<open>\<open>f >= k\<close> and \<open>f < k\<close> for an integer constant \<open>k\<close> that a double represents exactly.\<close>

fun f64_ge_int :: "f64 \<Rightarrow> int \<Rightarrow> bool" where
  "f64_ge_int NaN k = False"
| "f64_ge_int (Inf n) k = (\<not> n)"
| "f64_ge_int (Fin n m e) k =
     (if 0 \<le> e then k \<le> f64_num n m * 2 ^ nat e else k * 2 ^ nat (- e) \<le> f64_num n m)"

fun f64_less_int :: "f64 \<Rightarrow> int \<Rightarrow> bool" where
  "f64_less_int NaN k = False"
| "f64_less_int (Inf n) k = n"
| "f64_less_int (Fin n m e) k =
     (if 0 \<le> e then f64_num n m * 2 ^ nat e < k else f64_num n m < k * 2 ^ nat (- e))"

text \<open>Rounding towards zero, the integer part of \<open>f as i64\<close>.\<close>

fun f64_trunc :: "f64 \<Rightarrow> int" where
  "f64_trunc (Fin n m e) =
     (let t = (if 0 \<le> e then m * 2 ^ nat e else m div 2 ^ nat (- e)) in f64_num n t)"
| "f64_trunc _ = 0"

text \<open>Rust's saturating cast \<open>f as i64\<close>: NaN gives 0, out-of-range values the nearest limit.\<close>

definition f64_as_i64 :: "f64 \<Rightarrow> int" where
  "f64_as_i64 f =
     (case f of
        NaN \<Rightarrow> 0
      | Inf n \<Rightarrow> if n then - (2 ^ 63) else 2 ^ 63 - 1
      | Fin n m e \<Rightarrow> max (- (2 ^ 63)) (min (2 ^ 63 - 1) (f64_trunc f)))"

definition f64_is_finite :: "f64 \<Rightarrow> bool" where
  "f64_is_finite f \<longleftrightarrow> (case f of Fin _ _ _ \<Rightarrow> True | _ \<Rightarrow> False)"

section \<open>JSON values\<close>

record json_number =
  as_i64 :: "int option"
  as_u64 :: "nat option"
  as_f64 :: "f64 option"
  num_text :: str

datatype json =
    JNull
  | JBool bool
  | JNumber json_number
  | JString str
  | JArray "json list"
  | JObject "(str \<times> json) list"

text \<open>\<open>Value::is_null\<close>, \<open>as_str\<close>, \<open>as_i64\<close>.\<close>

definition is_null :: "json \<Rightarrow> bool" where
  "is_null v \<longleftrightarrow> (case v of JNull \<Rightarrow> True | _ \<Rightarrow> False)"

definition as_str :: "json \<Rightarrow> str option" where
  "as_str v = (case v of JString s \<Rightarrow> Some s | _ \<Rightarrow> None)"

definition json_as_i64 :: "json \<Rightarrow> int option" where
  "json_as_i64 v = (case v of JNumber n \<Rightarrow> as_i64 n | _ \<Rightarrow> None)"

text \<open>
  What the accessors promise: an integer answer lies in the range of its type, \<open>as_i64\<close> and \<open>as_u64\<close>
  agree where both answer.
\<close>

definition number_wf :: "json_number \<Rightarrow> bool" where
  "number_wf n \<longleftrightarrow>
     (case as_i64 n of Some i \<Rightarrow> in_i64 i | None \<Rightarrow> True) \<and>
     (case as_u64 n of Some u \<Rightarrow> u < 2 ^ 64 | None \<Rightarrow> True) \<and>
     (case (as_i64 n, as_u64 n) of (Some i, Some u) \<Rightarrow> i = int u | _ \<Rightarrow> True)"

section \<open>Exactness of the integer conversions of a double\<close>

lemma f64_integral_trunc:
  assumes "f64_integral (Fin n m e)"
  shows "f64_trunc (Fin n m e) * 2 ^ nat (- e) = f64_num n m * 2 ^ nat e"
proof (cases "0 \<le> e")
  case True
  then show ?thesis by (simp add: Let_def f64_num_def)
next
  case False
  with assms have "2 ^ nat (- e) dvd m" by (simp add: mod_eq_0_iff_dvd)
  then have "m div 2 ^ nat (- e) * 2 ^ nat (- e) = m" by simp
  then have "int (m div 2 ^ nat (- e)) * 2 ^ nat (- e) = int m"
    by (metis of_nat_mult of_nat_numeral of_nat_power)
  with False show ?thesis by (simp add: Let_def f64_num_def del: of_nat_div)
qed

lemma f64_trunc_bounds:
  assumes "f64_ge_int f (- (2 ^ 63))" and "f64_less_int f (2 ^ 63)"
  shows "in_i64 (f64_trunc f)"
proof (cases f)
  case (Fin n m e)
  show ?thesis
  proof (cases "0 \<le> e")
    case True
    with assms Fin show ?thesis by (simp add: Let_def in_i64_def f64_num_def split: if_splits)
  next
    case False
    let ?p = "2 ^ nat (- e) :: nat"
    have p: "0 < ?p" by simp
    from False assms Fin have lo: "- (2 ^ 63) * int ?p \<le> f64_num n m" and hi: "f64_num n m < 2 ^ 63 * int ?p"
      by simp_all
    have t: "f64_trunc f = f64_num n (m div ?p)" using False Fin by (simp add: Let_def)
    show ?thesis
    proof (cases n)
      case True
      with lo have "int m \<le> int (2 ^ 63 * ?p)" by (simp add: f64_num_def)
      then have "m div ?p \<le> 2 ^ 63" using p by (metis div_le_mono nonzero_mult_div_cancel_right not_less0 of_nat_le_iff)
      then have "int (m div ?p) \<le> 2 ^ 63" by (metis of_nat_le_iff of_nat_numeral of_nat_power)
      with True t show ?thesis by (simp add: in_i64_def f64_num_def del: of_nat_div)
    next
      case False
      with hi have "int m < int (2 ^ 63 * ?p)" by (simp add: f64_num_def)
      then have "m div ?p < 2 ^ 63" using p by (metis less_mult_imp_div_less of_nat_less_iff)
      then have "int (m div ?p) < 2 ^ 63" by (metis of_nat_less_iff of_nat_numeral of_nat_power)
      with False t show ?thesis by (simp add: in_i64_def f64_num_def del: of_nat_div)
    qed
  qed
qed (use assms in auto)

lemma f64_as_i64_in_range:
  assumes "f64_ge_int f (- (2 ^ 63))" and "f64_less_int f (2 ^ 63)"
  shows "f64_as_i64 f = f64_trunc f"
  using f64_trunc_bounds [OF assms] assms
  by (cases f) (auto simp: f64_as_i64_def in_i64_def)

end
