(* ===== verification/Float_Text.thy ===== *)
theory Float_Text
  imports Json_Model
begin

text \<open>
  The parts of Rust's standard library that turn doubles into text and back: \<^verbatim>\<open>str::parse::<f64>\<close>
  (correctly rounded to nearest, ties to even), \<^verbatim>\<open>Display for f64\<close> (the shortest digits that read back
  as the same double, closest to it, without an exponent) and the cast \<^verbatim>\<open>as f32\<close>. Both formats are
  given by precision and exponent range, so one rounding function serves all three.
\<close>

section \<open>Rounding a ratio\<close>

fun bit_len :: "nat \<Rightarrow> nat" where
  "bit_len n = (if n = 0 then 0 else Suc (bit_len (n div 2)))"

declare bit_len.simps [simp del]

definition scaled :: "nat \<Rightarrow> nat \<Rightarrow> int \<Rightarrow> nat \<times> nat" where
  "scaled a b e = (if 0 \<le> e then (a, b * 2 ^ nat e) else (a * 2 ^ nat (- e), b))"

definition round_even :: "nat \<Rightarrow> nat \<Rightarrow> nat" where
  "round_even n d =
     (let m = n div d; r = n mod d in
      if d < 2 * r \<or> (2 * r = d \<and> odd m) then Suc m else m)"

definition float_of_ratio :: "nat \<Rightarrow> int \<Rightarrow> int \<Rightarrow> bool \<Rightarrow> nat \<Rightarrow> nat \<Rightarrow> f64" where
  "float_of_ratio p emin emax n a b =
     (if a = 0 then Fin n 0 0
      else let e1 = int (bit_len a) - int (bit_len b) - int p;
               (a1, b1) = scaled a b e1;
               e = max emin (if 2 ^ p \<le> a1 div b1 then e1 + 1 else e1);
               (a2, b2) = scaled a b e;
               m = round_even a2 b2;
               (m', e') = (if m = 2 ^ p then (2 ^ (p - 1), e + 1) else (m, e))
           in if m' = 0 then Fin n 0 0 else if emax < e' then Inf n else Fin n m' e')"

definition f64_of_ratio :: "bool \<Rightarrow> nat \<Rightarrow> nat \<Rightarrow> f64" where
  "f64_of_ratio = float_of_ratio 53 (- 1074) 971"

definition f64_as_f32 :: "f64 \<Rightarrow> f64" where
  "f64_as_f32 f =
     (case f of
        Fin n m e \<Rightarrow>
          (if 0 \<le> e then float_of_ratio 24 (- 149) 104 n (m * 2 ^ nat e) 1
           else float_of_ratio 24 (- 149) 104 n m (2 ^ nat (- e)))
      | _ \<Rightarrow> f)"

section \<open>Parsing\<close>

text \<open>Digits, an optional fraction and an optional exponent; at least one digit in the mantissa.\<close>

definition parse_exponent :: "str \<Rightarrow> int option" where
  "parse_exponent s =
     (case s of
        [] \<Rightarrow> Some 0
      | c # t \<Rightarrow>
          if c = CHR ''e'' \<or> c = CHR ''E'' then
            (let (sg, ds) = (case t of
                               d # u \<Rightarrow> if d = CHR ''-'' then (- 1, u)
                                        else if d = CHR ''+'' then (1, u) else (1, t)
                             | [] \<Rightarrow> (1, t))
             in map_option (\<lambda>v. sg * int v) (parse_digits ds))
          else None)"

definition parse_decimal :: "bool \<Rightarrow> str \<Rightarrow> f64 option" where
  "parse_decimal n s =
     (let ip = takeWhile is_digit s; r = dropWhile is_digit s;
          (fp, r') = (case r of
                        c # t \<Rightarrow> if c = CHR ''.'' then (takeWhile is_digit t, dropWhile is_digit t) else ([], r)
                      | [] \<Rightarrow> ([], []))
      in if ip = [] \<and> fp = [] then None
         else case parse_exponent r' of
                None \<Rightarrow> None
              | Some x \<Rightarrow>
                  (let d = digits_val (ip @ fp); k = x - int (length fp) in
                   Some (if 0 \<le> k then f64_of_ratio n (d * 10 ^ nat k) 1
                         else f64_of_ratio n d (10 ^ nat (- k)))))"

definition parse_f64 :: "str \<Rightarrow> f64 option" where
  "parse_f64 s =
     (let (n, t) = (case s of
                      c # u \<Rightarrow> if c = CHR ''-'' then (True, u)
                               else if c = CHR ''+'' then (False, u) else (False, s)
                    | [] \<Rightarrow> (False, s));
          l = to_ascii_lowercase t
      in if l = ''inf'' \<or> l = ''infinity'' then Some (Inf n)
         else if l = ''nan'' then Some NaN
         else parse_decimal n t)"

section \<open>Display\<close>

text \<open>The decimal exponent \<open>k\<close> of \<open>a / b\<close>: \<open>10^(k-1) \<le> a / b < 10^k\<close>.\<close>

fun leading_zeros :: "nat \<Rightarrow> nat \<Rightarrow> nat \<Rightarrow> nat" where
  "leading_zeros 0 a b = 0"
| "leading_zeros (Suc fuel) a b = (if b \<le> a * 10 then 0 else Suc (leading_zeros fuel (a * 10) b))"

definition dec_exp :: "nat \<Rightarrow> nat \<Rightarrow> int" where
  "dec_exp a b =
     (if b \<le> a then int (length (nat_to_str (a div b))) else - int (leading_zeros 400 a b))"

definition dec_ratio :: "nat \<Rightarrow> int \<Rightarrow> nat \<times> nat" where
  "dec_ratio d k = (if 0 \<le> k then (d * 10 ^ nat k, 1) else (d, 10 ^ nat (- k)))"

text \<open>
  The \<open>n\<close>-digit decimals \<open>lo\<close>, \<open>lo + 1\<close> around the value: those that read back as the value are
  candidates, the closer one is taken (the even one on a tie). Seventeen digits always suffice.
\<close>

definition reads_back :: "f64 \<Rightarrow> nat \<Rightarrow> int \<Rightarrow> bool" where
  "reads_back f d k \<longleftrightarrow> (case dec_ratio d k of (a, b) \<Rightarrow> f64_of_ratio (neg f) a b = f)"

fun shortest_digits :: "nat \<Rightarrow> nat \<Rightarrow> f64 \<Rightarrow> nat \<Rightarrow> nat \<Rightarrow> int \<Rightarrow> nat \<times> int" where
  "shortest_digits fuel n f a b k =
     (let x = k - int n;
          (a', b') = (if 0 \<le> x then (a, b * 10 ^ nat x) else (a * 10 ^ nat (- x), b));
          lo = a' div b'; r = a' mod b';
          okl = reads_back f lo x; okh = reads_back f (Suc lo) x
      in if okl \<and> (\<not> okh \<or> 2 * r < b' \<or> (2 * r = b' \<and> even lo)) then (lo, x)
         else if okh then (if Suc lo = 10 ^ n then (1, k) else (Suc lo, x))
         else case fuel of 0 \<Rightarrow> (lo, x) | Suc fuel' \<Rightarrow> shortest_digits fuel' (Suc n) f a b k)"

declare shortest_digits.simps [simp del]

definition place_point :: "str \<Rightarrow> int \<Rightarrow> str" where
  "place_point ds x =
     (if 0 \<le> x then ds @ replicate (nat x) (CHR ''0'')
      else if nat (- x) < length ds
      then take (length ds - nat (- x)) ds @ ''.'' @ drop (length ds - nat (- x)) ds
      else ''0.'' @ replicate (nat (- x) - length ds) (CHR ''0'') @ ds)"

definition f64_display :: "f64 \<Rightarrow> str" where
  "f64_display f =
     (case f of
        NaN \<Rightarrow> ''NaN''
      | Inf n \<Rightarrow> (if n then ''-inf'' else ''inf'')
      | Fin n m e \<Rightarrow>
          (if n then ''-'' else '''') @
          (if m = 0 then ''0''
           else let (a, b) = (if 0 \<le> e then (m * 2 ^ nat e, 1) else (m, 2 ^ nat (- e)));
                    (d, x) = shortest_digits 17 1 (f64_of_ratio n a b) a b (dec_exp a b)
                in place_point (nat_to_str d) x))"

end
