(* ===== verification/Types_Encode.thy ===== *)
theory Types_Encode
  imports Types_Map Float_Text
begin

text \<open>
  Model of the value encoding of \<^verbatim>\<open>src/types.rs\<close>: JSON cells of a Trino result as PostgreSQL text or as
  the typed values whose binary form is sent. The calendar library, the decimal library, the time zone
  database and JSON's printer are the functions of a record \<open>conv\<close>; the values they return are given
  by what the gateway reads from them.
\<close>

section \<open>Library values\<close>

text \<open>
  \<open>NaiveTime\<close> as seconds from midnight and nanoseconds (a leap second reaches past \<open>10^9\<close>),
  \<open>NaiveDateTime\<close> as day number and time, \<open>DateTime<Utc>\<close> as its UTC date and time,
  \<open>DateTime<FixedOffset>\<close> as the instant, the local time and the offset in seconds east;
  \<open>Decimal\<close> as coefficient and scale; \<open>Tz\<close> as its index in the database.
\<close>

record naive_time =
  nt_secs :: nat
  nanosecond :: nat

type_synonym naive_date = int
type_synonym naive_datetime = "naive_date \<times> naive_time"
type_synonym utc_datetime = naive_datetime
type_synonym decimal = "int \<times> nat"
type_synonym tz = nat

record fixed_datetime =
  fd_utc :: utc_datetime
  fd_time :: naive_time
  fd_offset :: int

text \<open>
  The library functions: \<^verbatim>\<open>parse_from_str\<close> of the four chrono types with its format, \<^verbatim>\<open>Tz::from_str\<close>,
  \<^verbatim>\<open>from_local_datetime(..).single()\<close> in UTC, \<^verbatim>\<open>format\<close> of a time and of an instant,
  \<^verbatim>\<open>signed_duration_since(NaiveTime::MIN).num_microseconds()\<close>, \<^verbatim>\<open>Decimal::from_str_exact\<close>,
  \<^verbatim>\<open>Value::to_string\<close> and \<^verbatim>\<open>Type::name\<close>.
\<close>

record conv =
  parse_ndt :: "str \<Rightarrow> str \<Rightarrow> naive_datetime option"
  parse_dt :: "str \<Rightarrow> str \<Rightarrow> fixed_datetime option"
  parse_nd :: "str \<Rightarrow> str \<Rightarrow> naive_date option"
  parse_nt :: "str \<Rightarrow> str \<Rightarrow> naive_time option"
  parse_tz :: "str \<Rightarrow> tz option"
  local_single :: "tz \<Rightarrow> naive_datetime \<Rightarrow> utc_datetime option"
  format_nt :: "str \<Rightarrow> naive_time \<Rightarrow> str"
  format_utc :: "str \<Rightarrow> utc_datetime \<Rightarrow> str"
  micros_since_midnight :: "naive_time \<Rightarrow> int option"
  decimal_from_str_exact :: "str \<Rightarrow> decimal option"
  json_text :: "json \<Rightarrow> str"
  type_name :: "pg_type \<Rightarrow> str"

section \<open>Errors\<close>

definition conversion_error :: "str \<Rightarrow> str \<Rightarrow> pgwire_error" where
  "conversion_error target trino_type =
     UserError \<lparr>severity = ''ERROR'', code = ''22P03'',
       message = ''gateway could not encode a Trino '' @ trino_type @ '' value as binary '' @ target\<rparr>"

definition out_of_range :: "int \<Rightarrow> str \<Rightarrow> pgwire_error" where
  "out_of_range value target =
     UserError \<lparr>severity = ''ERROR'', code = ''22003'',
       message = ''value '' @ int_to_str value @ '' out of range for binary '' @ target\<rparr>"

definition unsupported_binary_type :: "conv \<Rightarrow> pg_type \<Rightarrow> str \<Rightarrow> pgwire_error" where
  "unsupported_binary_type cv ty trino_type =
     UserError \<lparr>severity = ''ERROR'', code = ''0A000'',
       message = ''binary wire format for column type '' @ type_name cv ty @ '' (Trino '' @ trino_type @
         '') is not supported by the gateway; the client requested binary results for this column''\<rparr>"

section \<open>Numbers and text\<close>

definition format_float_text :: "f64 \<Rightarrow> str" where
  "format_float_text f =
     (case f of
        NaN \<Rightarrow> ''NaN''
      | Inf n \<Rightarrow> (if n then ''-Infinity'' else ''Infinity'')
      | Fin _ _ _ \<Rightarrow> f64_display f)"

definition base_type :: "str \<Rightarrow> str" where
  "base_type trino_type =
     (let trimmed = trim trino_type in
      case find_char (CHR ''('') trimmed of
        Some idx \<Rightarrow> trim (take idx trimmed)
      | None \<Rightarrow> trimmed)"

definition fits_i64 :: "f64 \<Rightarrow> bool" where
  "fits_i64 f \<longleftrightarrow> f64_ge_int f (- (2 ^ 63)) \<and> f64_less_int f (2 ^ 63)"

definition encode_number :: "json_number \<Rightarrow> str \<Rightarrow> str" where
  "encode_number n base =
     (let b = to_lowercase base in
      if b = ''tinyint'' \<or> b = ''smallint'' \<or> b = ''integer'' \<or> b = ''bigint'' then
        (case as_i64 n of
           Some i \<Rightarrow> int_to_str i
         | None \<Rightarrow>
             (case as_u64 n of
                Some u \<Rightarrow> nat_to_str u
              | None \<Rightarrow>
                  (case as_f64 n of
                     Some f \<Rightarrow>
                       (if f64_is_finite f
                        then (if fits_i64 f then int_to_str (f64_as_i64 f) else f64_display f)
                        else num_text n)
                   | None \<Rightarrow> num_text n)))
      else if b = ''real'' \<or> b = ''double'' then
        (case as_f64 n of Some f \<Rightarrow> format_float_text f | None \<Rightarrow> num_text n)
      else num_text n)"

definition encode_value :: "conv \<Rightarrow> json \<Rightarrow> str \<Rightarrow> str option" where
  "encode_value cv value trino_type =
     (let base = base_type trino_type in
      case value of
        JNull \<Rightarrow> None
      | JBool b \<Rightarrow> Some (if b then ''true'' else ''false'')
      | JNumber n \<Rightarrow> Some (encode_number n base)
      | JString s \<Rightarrow> Some s
      | JArray _ \<Rightarrow> Some (json_text cv value)
      | JObject _ \<Rightarrow> Some (json_text cv value))"

section \<open>Dates and times\<close>

definition truncate_fraction :: "str \<Rightarrow> str" where
  "truncate_fraction s =
     (case find_char (CHR ''.'') s of
        None \<Rightarrow> s
      | Some dot \<Rightarrow>
          (let fraction_start = dot + 1;
               fraction_len = length (takeWhile is_digit (drop fraction_start s))
           in if fraction_len \<le> 9 then s
              else take (fraction_start + 9) s @ drop (fraction_start + fraction_len) s))"

definition format_fraction :: "nat \<Rightarrow> str" where
  "format_fraction nanoseconds =
     (let micros = min (nanoseconds div 1000) 999999 in
      if micros = 0 then []
      else trim_end_matches (CHR ''0'') (''.'' @ pad_zeros 6 (nat_to_str micros)))"

definition two_digits :: "nat \<Rightarrow> str" where
  "two_digits n = pad_zeros 2 (nat_to_str n)"

definition format_utc_offset :: "int \<Rightarrow> str" where
  "format_utc_offset seconds_east =
     (let sign = (if seconds_east < 0 then ''-'' else ''+'');
          total = nat \<bar>seconds_east\<bar>;
          hours = total div 3600; minutes = total mod 3600 div 60; seconds = total mod 60
      in if seconds \<noteq> 0
         then sign @ two_digits hours @ '':'' @ two_digits minutes @ '':'' @ two_digits seconds
         else if minutes \<noteq> 0 then sign @ two_digits hours @ '':'' @ two_digits minutes
         else sign @ two_digits hours)"

definition render_timestamptz_text :: "conv \<Rightarrow> utc_datetime \<Rightarrow> str" where
  "render_timestamptz_text cv dt =
     format_utc cv ''%Y-%m-%d %H:%M:%S'' dt @ format_fraction (nanosecond (snd dt)) @ ''+00''"

record time_tz =
  tz_time :: naive_time
  offset_east_seconds :: int

definition to_pg_text :: "conv \<Rightarrow> time_tz \<Rightarrow> str" where
  "to_pg_text cv t =
     format_nt cv ''%H:%M:%S'' (tz_time t) @ format_fraction (nanosecond (tz_time t))
       @ format_utc_offset (offset_east_seconds t)"

text \<open>\<open>BufMut::put_i64\<close> and \<open>put_i32\<close>: big-endian two's complement.\<close>

fun be_bytes :: "nat \<Rightarrow> nat \<Rightarrow> nat list" where
  "be_bytes 0 n = []"
| "be_bytes (Suc k) n = be_bytes k (n div 256) @ [n mod 256]"

definition put_i64 :: "int \<Rightarrow> nat list" where
  "put_i64 i = be_bytes 8 (nat (i mod 2 ^ 64))"

definition put_i32 :: "int \<Rightarrow> nat list" where
  "put_i32 i = be_bytes 4 (nat (i mod 2 ^ 32))"

text \<open>\<open>ToSql for TimeTz\<close>: the payload, or the error text.\<close>

definition to_sql :: "conv \<Rightarrow> time_tz \<Rightarrow> str + nat list" where
  "to_sql cv t =
     (case micros_since_midnight cv (tz_time t) of
        None \<Rightarrow> Inl ''time of day does not fit in a microsecond count''
      | Some micros \<Rightarrow> Inr (put_i64 micros @ put_i32 (- offset_east_seconds t)))"

definition accepts :: "pg_type \<Rightarrow> bool" where
  "accepts ty \<longleftrightarrow> ty = TIMETZ"

text \<open>\<open>ToSqlText for TimeTz\<close>: never an error.\<close>

definition to_sql_text :: "conv \<Rightarrow> time_tz \<Rightarrow> str + str" where
  "to_sql_text cv t = Inr (to_pg_text cv t)"

definition parse_naive_datetime :: "conv \<Rightarrow> str \<Rightarrow> naive_datetime option" where
  "parse_naive_datetime cv s0 =
     (let s = truncate_fraction s0 in
      case parse_ndt cv s ''%Y-%m-%d %H:%M:%S%.f'' of
        Some d \<Rightarrow> Some d
      | None \<Rightarrow> parse_ndt cv s ''%Y-%m-%dT%H:%M:%S%.f'')"

definition first_format :: "(str \<Rightarrow> 'a option) \<Rightarrow> str list \<Rightarrow> 'a option" where
  "first_format p fmts = (case List.find (\<lambda>f. p f \<noteq> None) fmts of Some f \<Rightarrow> p f | None \<Rightarrow> None)"

definition parse_trino_timestamptz :: "conv \<Rightarrow> str \<Rightarrow> utc_datetime option" where
  "parse_trino_timestamptz cv s0 =
     (let s = truncate_fraction (trim s0) in
      case first_format (parse_dt cv s)
             [''%Y-%m-%d %H:%M:%S%.f%#z'', ''%Y-%m-%d %H:%M:%S%.f %#z'',
              ''%Y-%m-%dT%H:%M:%S%.f%#z'', ''%Y-%m-%dT%H:%M:%S%.f %#z''] of
        Some dt \<Rightarrow> Some (fd_utc dt)
      | None \<Rightarrow>
          (case rfind_char (CHR '' '') s of
             None \<Rightarrow> None
           | Some i \<Rightarrow>
               (case parse_tz cv (drop (i + 1) s) of
                  None \<Rightarrow> None
                | Some tz \<Rightarrow>
                    (case parse_naive_datetime cv (trim (take i s)) of
                       None \<Rightarrow> None
                     | Some naive \<Rightarrow> local_single cv tz naive))))"

definition parse_trino_timetz :: "conv \<Rightarrow> str \<Rightarrow> time_tz option" where
  "parse_trino_timetz cv s =
     (let dated = ''2000-01-01 '' @ truncate_fraction (trim s) in
      map_option (\<lambda>dt. \<lparr>tz_time = fd_time dt, offset_east_seconds = fd_offset dt\<rparr>)
        (first_format (parse_dt cv dated) [''%Y-%m-%d %H:%M:%S%.f%#z'', ''%Y-%m-%d %H:%M:%S%.f %#z'']))"

section \<open>Conversions for the binary format\<close>

definition ok_or :: "'a option \<Rightarrow> pgwire_error \<Rightarrow> 'a pg_result" where
  "ok_or x e = (case x of Some v \<Rightarrow> Inr v | None \<Rightarrow> Inl e)"

definition or_else :: "'a option \<Rightarrow> 'a option \<Rightarrow> 'a option" where
  "or_else x y = (case x of Some v \<Rightarrow> Some v | None \<Rightarrow> y)"

definition json_to_bool :: "json \<Rightarrow> str \<Rightarrow> bool pg_result" where
  "json_to_bool value trino_type =
     (case value of
        JBool b \<Rightarrow> Inr b
      | JString s \<Rightarrow>
          (if s = ''true'' then Inr True
           else if s = ''false'' then Inr False
           else Inl (conversion_error ''boolean'' trino_type))
      | _ \<Rightarrow> Inl (conversion_error ''boolean'' trino_type))"

definition f64_to_i64_exact :: "f64 \<Rightarrow> int option" where
  "f64_to_i64_exact f =
     (if f64_integral f \<and> f64_ge_int f (- (2 ^ 63)) \<and> f64_less_int f (2 ^ 63)
      then Some (f64_as_i64 f) else None)"

definition i64_try_from :: "nat \<Rightarrow> int option" where
  "i64_try_from u = (if u < 2 ^ 63 then Some (int u) else None)"

definition json_to_i64 :: "json \<Rightarrow> str \<Rightarrow> int pg_result" where
  "json_to_i64 value trino_type =
     (case value of
        JNumber n \<Rightarrow>
          ok_or (or_else (or_else (as_i64 n) (Option.bind (as_u64 n) i64_try_from))
                   (Option.bind (as_f64 n) f64_to_i64_exact))
            (conversion_error ''integer'' trino_type)
      | JString s \<Rightarrow>
          ok_or (or_else (parse_i64 (trim s)) (Option.bind (parse_f64 (trim s)) f64_to_i64_exact))
            (conversion_error ''integer'' trino_type)
      | _ \<Rightarrow> Inl (conversion_error ''integer'' trino_type))"

definition json_to_f64 :: "json \<Rightarrow> str \<Rightarrow> f64 pg_result" where
  "json_to_f64 value trino_type =
     (case value of
        JNumber n \<Rightarrow> ok_or (as_f64 n) (conversion_error ''float'' trino_type)
      | JString s \<Rightarrow>
          (if trim s = ''NaN'' then Inr NaN
           else if trim s = ''Infinity'' then Inr (Inf False)
           else if trim s = ''-Infinity'' then Inr (Inf True)
           else ok_or (parse_f64 (trim s)) (conversion_error ''float'' trino_type))
      | _ \<Rightarrow> Inl (conversion_error ''float'' trino_type))"

definition json_to_decimal :: "conv \<Rightarrow> json \<Rightarrow> str \<Rightarrow> decimal pg_result" where
  "json_to_decimal cv value trino_type =
     (case value of
        JString s \<Rightarrow> ok_or (decimal_from_str_exact cv (trim s)) (conversion_error ''numeric'' trino_type)
      | JNumber n \<Rightarrow> ok_or (decimal_from_str_exact cv (trim (num_text n))) (conversion_error ''numeric'' trino_type)
      | _ \<Rightarrow> Inl (conversion_error ''numeric'' trino_type))"

definition json_to_timestamp :: "conv \<Rightarrow> json \<Rightarrow> str \<Rightarrow> naive_datetime pg_result" where
  "json_to_timestamp cv value trino_type =
     (case as_str value of
        None \<Rightarrow> Inl (conversion_error ''timestamp'' trino_type)
      | Some s \<Rightarrow> ok_or (parse_naive_datetime cv (trim s)) (conversion_error ''timestamp'' trino_type))"

definition json_to_timestamptz :: "conv \<Rightarrow> json \<Rightarrow> str \<Rightarrow> utc_datetime pg_result" where
  "json_to_timestamptz cv value trino_type =
     (case as_str value of
        None \<Rightarrow> Inl (conversion_error ''timestamptz'' trino_type)
      | Some s \<Rightarrow> ok_or (parse_trino_timestamptz cv s) (conversion_error ''timestamptz'' trino_type))"

definition json_to_date :: "conv \<Rightarrow> json \<Rightarrow> str \<Rightarrow> naive_date pg_result" where
  "json_to_date cv value trino_type =
     (case as_str value of
        None \<Rightarrow> Inl (conversion_error ''date'' trino_type)
      | Some s \<Rightarrow> ok_or (parse_nd cv (trim s) ''%Y-%m-%d'') (conversion_error ''date'' trino_type))"

definition json_to_time :: "conv \<Rightarrow> json \<Rightarrow> str \<Rightarrow> naive_time pg_result" where
  "json_to_time cv value trino_type =
     (case as_str value of
        None \<Rightarrow> Inl (conversion_error ''time'' trino_type)
      | Some s \<Rightarrow>
          ok_or (parse_nt cv (truncate_fraction (trim s)) ''%H:%M:%S%.f'') (conversion_error ''time'' trino_type))"

definition json_to_timetz :: "conv \<Rightarrow> json \<Rightarrow> str \<Rightarrow> time_tz pg_result" where
  "json_to_timetz cv value trino_type =
     (case as_str value of
        None \<Rightarrow> Inl (conversion_error ''timetz'' trino_type)
      | Some s \<Rightarrow> ok_or (parse_trino_timetz cv s) (conversion_error ''timetz'' trino_type))"

section \<open>Cells\<close>

text \<open>The value handed to \<^verbatim>\<open>DataRowEncoder::encode_field\<close>.\<close>

datatype pg_value =
    VNull | VText str | VBool bool | VI16 int | VI32 int | VI64 int | VF32 f64 | VF64 f64
  | VDecimal decimal | VTimestamp naive_datetime | VTimestamptz utc_datetime | VDate naive_date
  | VTime naive_time | VTimetz time_tz

datatype field_format = Text | Binary

definition opt_text :: "str option \<Rightarrow> pg_value" where
  "opt_text t = (case t of None \<Rightarrow> VNull | Some s \<Rightarrow> VText s)"

definition map_ok :: "('a \<Rightarrow> 'b) \<Rightarrow> 'a pg_result \<Rightarrow> 'b pg_result" where
  "map_ok f r = (case r of Inl e \<Rightarrow> Inl e | Inr v \<Rightarrow> Inr (f v))"

definition text_value :: "conv \<Rightarrow> json \<Rightarrow> pg_type \<Rightarrow> str \<Rightarrow> str option" where
  "text_value cv value ty trino_type =
     (case (if ty = TIMESTAMPTZ then Option.bind (as_str value) (parse_trino_timestamptz cv) else None) of
        Some dt \<Rightarrow> Some (render_timestamptz_text cv dt)
      | None \<Rightarrow>
          (case (if ty = TIMETZ then Option.bind (as_str value) (parse_trino_timetz cv) else None) of
             Some time \<Rightarrow> Some (to_pg_text cv time)
           | None \<Rightarrow> encode_value cv value trino_type))"

definition encode_binary_cell :: "conv \<Rightarrow> json \<Rightarrow> pg_type \<Rightarrow> str \<Rightarrow> pg_value pg_result" where
  "encode_binary_cell cv value t trino_type =
     (if t = BOOL then map_ok VBool (json_to_bool value trino_type)
      else if t = INT2 then
        (case json_to_i64 value trino_type of
           Inl e \<Rightarrow> Inl e
         | Inr n \<Rightarrow> if - (2 ^ 15) \<le> n \<and> n < 2 ^ 15 then Inr (VI16 n) else Inl (out_of_range n ''int2''))
      else if t = INT4 then
        (case json_to_i64 value trino_type of
           Inl e \<Rightarrow> Inl e
         | Inr n \<Rightarrow> if - (2 ^ 31) \<le> n \<and> n < 2 ^ 31 then Inr (VI32 n) else Inl (out_of_range n ''int4''))
      else if t = INT8 then map_ok VI64 (json_to_i64 value trino_type)
      else if t = FLOAT4 then map_ok (\<lambda>f. VF32 (f64_as_f32 f)) (json_to_f64 value trino_type)
      else if t = FLOAT8 then map_ok VF64 (json_to_f64 value trino_type)
      else if t = NUMERIC then map_ok VDecimal (json_to_decimal cv value trino_type)
      else if t = TIMESTAMP then map_ok VTimestamp (json_to_timestamp cv value trino_type)
      else if t = TIMESTAMPTZ then map_ok VTimestamptz (json_to_timestamptz cv value trino_type)
      else if t = DATE then map_ok VDate (json_to_date cv value trino_type)
      else if t = TIME then map_ok VTime (json_to_time cv value trino_type)
      else if t = TIMETZ then map_ok VTimetz (json_to_timetz cv value trino_type)
      else if t = VARCHAR \<or> t = TEXT \<or> t = BPCHAR \<or> t = NAME \<or> t = UNKNOWN
      then Inr (opt_text (encode_value cv value trino_type))
      else Inl (unsupported_binary_type cv t trino_type))"

definition encode_cell :: "conv \<Rightarrow> json \<Rightarrow> pg_type \<Rightarrow> str \<Rightarrow> field_format \<Rightarrow> pg_value pg_result" where
  "encode_cell cv value ty trino_type fmt =
     (if is_null value then Inr VNull
      else case fmt of
             Text \<Rightarrow> Inr (opt_text (text_value cv value ty trino_type))
           | Binary \<Rightarrow> encode_binary_cell cv value ty trino_type)"

section \<open>Lemmas\<close>

lemmas conv_option_defs = ok_or_def or_else_def map_ok_def

text \<open>The types whose binary form the gateway produces.\<close>

definition binary_supported :: "pg_type list" where
  "binary_supported =
     [BOOL, INT2, INT4, INT8, FLOAT4, FLOAT8, NUMERIC, TIMESTAMP, TIMESTAMPTZ, DATE, TIME, TIMETZ,
      VARCHAR, TEXT, BPCHAR, NAME, UNKNOWN]"

lemma conversion_errors:
  "json_to_bool v t = Inl e \<Longrightarrow> e = conversion_error ''boolean'' t"
  "json_to_i64 v t = Inl e \<Longrightarrow> e = conversion_error ''integer'' t"
  "json_to_f64 v t = Inl e \<Longrightarrow> e = conversion_error ''float'' t"
  "json_to_decimal cv v t = Inl e \<Longrightarrow> e = conversion_error ''numeric'' t"
  "json_to_timestamp cv v t = Inl e \<Longrightarrow> e = conversion_error ''timestamp'' t"
  "json_to_timestamptz cv v t = Inl e \<Longrightarrow> e = conversion_error ''timestamptz'' t"
  "json_to_date cv v t = Inl e \<Longrightarrow> e = conversion_error ''date'' t"
  "json_to_time cv v t = Inl e \<Longrightarrow> e = conversion_error ''time'' t"
  "json_to_timetz cv v t = Inl e \<Longrightarrow> e = conversion_error ''timetz'' t"
  by (auto simp: json_to_bool_def json_to_i64_def json_to_f64_def json_to_decimal_def json_to_timestamp_def
      json_to_timestamptz_def json_to_date_def json_to_time_def json_to_timetz_def conv_option_defs
      split: json.splits option.splits if_splits)

lemma map_ok_Inl [simp]: "map_ok f r = Inl e \<longleftrightarrow> r = Inl e"
  by (auto simp: map_ok_def split: sum.splits)

lemma map_ok_Inr [simp]: "map_ok f r = Inr w \<longleftrightarrow> (\<exists>v. r = Inr v \<and> w = f v)"
  by (auto simp: map_ok_def split: sum.splits)

lemma unsupported_binary_type:
  "t \<notin> set binary_supported \<Longrightarrow> encode_binary_cell cv v t tt = Inl (unsupported_binary_type cv t tt)"
  by (simp add: encode_binary_cell_def binary_supported_def)

lemma supported_binary_type:
  assumes "t \<in> set binary_supported" and "encode_binary_cell cv v t tt = Inl e"
  shows "(\<exists>target. e = conversion_error target tt) \<or> (\<exists>n target. e = out_of_range n target)"
  using assms
  by (auto simp: binary_supported_def encode_binary_cell_def dest!: conversion_errors
      split: sum.splits if_splits)

lemma encode_value_null: "encode_value cv v tt = None \<longleftrightarrow> v = JNull"
  by (cases v) (auto simp: encode_value_def Let_def)

lemma text_value_null: "v \<noteq> JNull \<Longrightarrow> text_value cv v ty tt \<noteq> None"
  using encode_value_null [of cv v tt] by (auto simp: text_value_def split: option.split)

lemma binary_cell_not_null:
  assumes "v \<noteq> JNull" shows "encode_binary_cell cv v t tt \<noteq> Inr VNull"
  using assms encode_value_null [of cv v tt]
  by (auto simp: encode_binary_cell_def opt_text_def split: sum.splits option.splits if_splits)

section \<open>Exactness of integer cells\<close>

text \<open>The mathematical integer a JSON value denotes, when it denotes one.\<close>

definition f64_is_int :: "f64 \<Rightarrow> int \<Rightarrow> bool" where
  "f64_is_int f i \<longleftrightarrow>
     (case f of Fin n m e \<Rightarrow> i * 2 ^ nat (- e) = f64_num n m * 2 ^ nat e | _ \<Rightarrow> False)"

definition json_is_int :: "json \<Rightarrow> int \<Rightarrow> bool" where
  "json_is_int v i \<longleftrightarrow>
     (case v of
        JNumber n \<Rightarrow>
          (case (as_i64 n, as_u64 n) of
             (Some j, _) \<Rightarrow> i = j
           | (None, Some u) \<Rightarrow> i = int u
           | (None, None) \<Rightarrow> \<exists>f. as_f64 n = Some f \<and> f64_is_int f i)
      | JString s \<Rightarrow>
          (case parse_i64 (trim s) of
             Some j \<Rightarrow> i = j
           | None \<Rightarrow> \<exists>f. parse_f64 (trim s) = Some f \<and> f64_is_int f i)
      | _ \<Rightarrow> False)"

text \<open>
  What a conversion of a large integer to a double keeps of its size: one that does not fit into 64 signed
  bits does not become smaller than \<open>2^63\<close>.
\<close>

definition large_stays_large :: "json \<Rightarrow> bool" where
  "large_stays_large v \<longleftrightarrow>
     (case v of
        JNumber n \<Rightarrow> (case (as_u64 n, as_f64 n) of (Some u, Some f) \<Rightarrow> u < 2 ^ 63 \<or> \<not> f64_less_int f (2 ^ 63) | _ \<Rightarrow> True)
      | _ \<Rightarrow> True)"

lemma f64_to_i64_exact_SomeD:
  assumes "f64_to_i64_exact f = Some i" shows "f64_is_int f i" and "in_i64 i"
proof -
  from assms have f: "f64_integral f" "f64_ge_int f (- (2 ^ 63))" "f64_less_int f (2 ^ 63)"
    and i: "i = f64_trunc f"
    using f64_as_i64_in_range by (auto simp: f64_to_i64_exact_def split: if_splits)
  from f(1) obtain n m e where fin: "f = Fin n m e" by (cases f) auto
  with f(1) i f64_integral_trunc [of n m e] show "f64_is_int f i" by (simp add: f64_is_int_def)
  from f64_trunc_bounds [OF f(2,3)] i show "in_i64 i" by simp
qed

lemma f64_is_int_unique: "f64_is_int f i \<Longrightarrow> f64_is_int f j \<Longrightarrow> i = j"
  by (auto simp: f64_is_int_def split: f64.splits) (metis mult_cancel_right power_not_zero zero_neq_numeral)

lemma json_to_i64_exact:
  assumes "json_to_i64 v tt = Inr i" and "large_stays_large v"
  shows "json_is_int v i"
proof (cases v)
  case (JNumber n)
  have "f64_to_i64_exact f = None" if "\<not> f64_less_int f (2 ^ 63)" for f using that by (simp add: f64_to_i64_exact_def)
  with assms JNumber show ?thesis
    by (auto simp: json_to_i64_def json_is_int_def large_stays_large_def i64_try_from_def conv_option_defs Option.bind_eq_Some_conv
        dest!: f64_to_i64_exact_SomeD(1) split: option.splits if_splits)
next
  case (JString s)
  with assms(1) show ?thesis
    by (auto simp: json_to_i64_def json_is_int_def conv_option_defs Option.bind_eq_Some_conv
        dest: f64_to_i64_exact_SomeD(1) split: option.splits)
qed (use assms(1) in \<open>simp_all add: json_to_i64_def\<close>)

lemma parse_i64_in_i64: "parse_i64 s = Some i \<Longrightarrow> in_i64 i"
  by (auto simp: parse_i64_def Let_def split: option.splits if_splits list.splits)

lemma json_to_i64_range:
  assumes "json_to_i64 v tt = Inr i" and "\<And>n. v = JNumber n \<Longrightarrow> number_wf n"
  shows "in_i64 i"
proof (cases v)
  case (JNumber n)
  with assms have "number_wf n" by simp
  with assms(1) JNumber show ?thesis
    by (auto simp: json_to_i64_def number_wf_def i64_try_from_def conv_option_defs Option.bind_eq_Some_conv in_i64_def
        dest!: f64_to_i64_exact_SomeD(2) split: option.splits if_splits)
next
  case (JString s)
  with assms(1) show ?thesis
    by (auto simp: json_to_i64_def conv_option_defs Option.bind_eq_Some_conv
        dest: f64_to_i64_exact_SomeD(2) parse_i64_in_i64 split: option.splits)
qed (use assms in \<open>auto simp: json_to_i64_def\<close>)

section \<open>Fractions and offsets\<close>

lemma trim_end_matches_snoc:
  "trim_end_matches c (s @ [x]) = (if x = c then trim_end_matches c s else s @ [x])"
  by (simp add: trim_end_matches_def)

lemma trim_end_matches_split: "\<exists>k. s = trim_end_matches c s @ replicate k c"
proof (induction s rule: rev_induct)
  case (snoc x s)
  then obtain k where k: "s = trim_end_matches c s @ replicate k c" by blast
  show ?case
  proof (cases "x = c")
    case True
    have "s @ [c] = (trim_end_matches c s @ replicate k c) @ [c]" using k by simp
    also have "\<dots> = trim_end_matches c s @ replicate (Suc k) c" by (simp add: replicate_append_same)
    finally have "s @ [x] = trim_end_matches c (s @ [x]) @ replicate (Suc k) c"
      using True trim_end_matches_snoc [of c s x] by simp
    then show ?thesis by blast
  next
    case False
    then have "s @ [x] = trim_end_matches c (s @ [x]) @ replicate 0 c" by (simp add: trim_end_matches_snoc)
    then show ?thesis by blast
  qed
qed (simp add: trim_end_matches_def)

lemma trim_end_matches_last: "trim_end_matches c s \<noteq> [] \<Longrightarrow> last (trim_end_matches c s) \<noteq> c"
  by (induction s rule: rev_induct) (auto simp: trim_end_matches_snoc trim_end_matches_def)

section \<open>Reading the texts back\<close>

text \<open>A fraction read back in microseconds; a UTC offset read back in seconds; wire integers read back.\<close>

definition fraction_micros :: "str \<Rightarrow> nat option" where
  "fraction_micros t =
     (case t of
        [] \<Rightarrow> Some 0
      | c # ds \<Rightarrow>
          if c = CHR ''.'' \<and> ds \<noteq> [] \<and> length ds \<le> 6 \<and> list_all is_digit ds
          then Some (digits_val (ds @ replicate (6 - length ds) (CHR ''0''))) else None)"

fun split_on :: "char \<Rightarrow> str \<Rightarrow> str list" where
  "split_on c [] = [[]]"
| "split_on c (x # xs) =
     (if x = c then [] # split_on c xs
      else case split_on c xs of [] \<Rightarrow> [[x]] | y # ys \<Rightarrow> (x # y) # ys)"

definition parse_utc_offset :: "str \<Rightarrow> int option" where
  "parse_utc_offset s =
     (case s of
        [] \<Rightarrow> None
      | c # r \<Rightarrow>
          if c \<noteq> CHR ''+'' \<and> c \<noteq> CHR ''-'' \<or> \<not> list_all (\<lambda>f. parse_digits f \<noteq> None) (split_on (CHR '':'') r)
          then None
          else map_option (\<lambda>n. if c = CHR ''-'' then - int n else int n)
            (case map digits_val (split_on (CHR '':'') r) of
               [h] \<Rightarrow> Some (h * 3600)
             | [h, m] \<Rightarrow> Some (h * 3600 + m * 60)
             | [h, m, sec] \<Rightarrow> Some (h * 3600 + m * 60 + sec)
             | _ \<Rightarrow> None))"

definition be_val :: "nat list \<Rightarrow> nat" where
  "be_val = foldl (\<lambda>a b. 256 * a + b) 0"

definition be_signed :: "nat list \<Rightarrow> int" where
  "be_signed bs =
     (let n = be_val bs; w = 8 * length bs in if n < 2 ^ (w - 1) then int n else int n - 2 ^ w)"

lemma split_on_clean: "c \<notin> set a \<Longrightarrow> split_on c a = [a]"
  by (induction a) auto

lemma split_on_append: "c \<notin> set a \<Longrightarrow> split_on c (a @ c # b) = a # split_on c b"
  by (induction a) auto

lemma two_digits_facts:
  shows "CHR '':'' \<notin> set (two_digits n)" "parse_digits (two_digits n) = Some n" "digits_val (two_digits n) = n"
  using pad_zeros_digits [of 2 n] digits_no_colon nat_to_str_nonempty [of n]
  by (simp_all add: two_digits_def parse_digits_def digits_val_pad) (auto simp: pad_zeros_def)

lemma parse_utc_offset_fields:
  assumes "sg = CHR ''+'' \<or> sg = CHR ''-''"
  shows "parse_utc_offset (sg # two_digits h) = Some (if sg = CHR ''-'' then - int (h * 3600) else int (h * 3600))"
    and "parse_utc_offset (sg # two_digits h @ CHR '':'' # two_digits m) =
      Some (if sg = CHR ''-'' then - int (h * 3600 + m * 60) else int (h * 3600 + m * 60))"
    and "parse_utc_offset (sg # two_digits h @ CHR '':'' # two_digits m @ CHR '':'' # two_digits s) =
      Some (if sg = CHR ''-'' then - int (h * 3600 + m * 60 + s) else int (h * 3600 + m * 60 + s))"
  using assms
  by (simp_all add: parse_utc_offset_def split_on_append split_on_clean two_digits_facts)

lemma parse_utc_offset_format: "parse_utc_offset (format_utc_offset z) = Some z"
proof -
  define n where "n = nat \<bar>z\<bar>"
  have "n mod 3600 mod 60 = n mod 60" by (simp add: mod_mod_cancel)
  then have h: "n div 3600 * 3600 + n mod 3600 div 60 * 60 + n mod 60 = n"
    by (metis div_mult_mod_eq add.assoc)
  define sg where "sg = (if z < 0 then CHR ''-'' else CHR ''+'')"
  have s: "sg = CHR ''+'' \<or> sg = CHR ''-''" by (simp add: sg_def)
  have z: "Some (if sg = CHR ''-'' then - int n else int n) = Some z" by (simp add: sg_def n_def)
  have f: "format_utc_offset z =
      (if n mod 60 \<noteq> 0 then sg # two_digits (n div 3600) @ CHR '':'' # two_digits (n mod 3600 div 60) @ CHR '':'' # two_digits (n mod 60)
       else if n mod 3600 div 60 \<noteq> 0 then sg # two_digits (n div 3600) @ CHR '':'' # two_digits (n mod 3600 div 60)
       else sg # two_digits (n div 3600))"
    by (simp add: format_utc_offset_def Let_def n_def sg_def)
  consider "n mod 60 \<noteq> 0" | "n mod 60 = 0" "n mod 3600 div 60 \<noteq> 0" | "n mod 60 = 0" "n mod 3600 div 60 = 0" by blast
  then show ?thesis
  proof cases
    case 1
    then show ?thesis using z by (simp only: f parse_utc_offset_fields [OF s] h if_True not_False_eq_True)
  next
    case 2
    with h have "n div 3600 * 3600 + n mod 3600 div 60 * 60 = n" by simp
    with 2 show ?thesis using z by (simp only: f parse_utc_offset_fields [OF s] if_True if_False not_True_eq_False simp_thms)
  next
    case 3
    with h have "n div 3600 * 3600 = n" by simp
    with 3 show ?thesis using z by (simp only: f parse_utc_offset_fields [OF s] if_False not_True_eq_False simp_thms)
  qed
qed

lemma be_val_snoc: "be_val (bs @ [b]) = 256 * be_val bs + b"
  by (simp add: be_val_def)

lemma be_bytes_length [simp]: "length (be_bytes k n) = k"
  by (induction k arbitrary: n) auto

lemma be_bytes_range: "b \<in> set (be_bytes k n) \<Longrightarrow> b < 256"
  by (induction k arbitrary: n) auto

lemma be_val_be_bytes: "n < 256 ^ k \<Longrightarrow> be_val (be_bytes k n) = n"
proof (induction k arbitrary: n)
  case (Suc k)
  then have "n div 256 < 256 ^ k" by (simp add: less_mult_imp_div_less mult.commute)
  with Suc.IH show ?case by (simp add: be_val_snoc)
qed (simp add: be_val_def)

lemma be_signed_mod:
  assumes "0 < k" and "- (2 ^ (8 * k - 1)) \<le> i" and "i < 2 ^ (8 * k - 1)"
  shows "be_signed (be_bytes k (nat (i mod 2 ^ (8 * k)))) = i"
proof -
  let ?w = "8 * k" and ?h = "2 ^ (8 * k - 1) :: int"
  have w: "(2 :: int) ^ ?w = 2 * ?h" using assms(1) by (simp flip: power_Suc)
  have n: "nat (i mod 2 ^ ?w) < 256 ^ k"
  proof -
    have "(256 :: int) ^ k = 2 ^ ?w" by (simp add: power_mult)
    then show ?thesis by (simp add: nat_less_iff)
  qed
  have v: "be_val (be_bytes k (nat (i mod 2 ^ ?w))) = nat (i mod 2 ^ ?w)" by (rule be_val_be_bytes [OF n])
  have m: "i mod 2 ^ ?w = (if 0 \<le> i then i else i + 2 ^ ?w)"
  proof (cases "0 \<le> i")
    case True
    with assms w show ?thesis by simp
  next
    case False
    have "(i + 2 ^ ?w) mod 2 ^ ?w = i + 2 ^ ?w" using False assms w by (intro mod_pos_pos_trivial) linarith+
    with False show ?thesis by simp
  qed
  have nat_less: "nat (i mod 2 ^ ?w) < 2 ^ (?w - 1) \<longleftrightarrow> i mod 2 ^ ?w < ?h"
    by (simp add: nat_less_iff)
  show ?thesis
    using assms w m v nat_less by (simp add: be_signed_def Let_def)
qed

lemma fraction_micros_format:
  "fraction_micros (format_fraction ns) = Some (min (ns div 1000) 999999)"
proof (cases "min (ns div 1000) 999999 = 0")
  case True
  then show ?thesis by (simp add: format_fraction_def fraction_micros_def Let_def)
next
  case False
  let ?m = "min (ns div 1000) 999999" and ?z = "CHR ''0''"
  let ?p = "pad_zeros 6 (nat_to_str ?m)"
  let ?t = "trim_end_matches ?z (''.'' @ ?p)"
  have len: "length ?p = 6" using pad_zeros_length [of ?m 5] by simp
  have dig: "list_all is_digit ?p" by (rule pad_zeros_digits)
  obtain k where k: "''.'' @ ?p = ?t @ replicate k ?z" using trim_end_matches_split by blast
  obtain ds where ds: "?t = CHR ''.'' # ds"
  proof (cases ?t)
    case Nil
    with k have "CHR ''.'' \<in> set (replicate k ?z)" by (metis append_Cons append_Nil list.set_intros(1))
    then show ?thesis by (simp add: set_replicate_conv_if split: if_splits)
  qed (use k that in auto)
  with k have p: "?p = ds @ replicate k ?z" by simp
  with len have kl: "k = 6 - length ds" "length ds \<le> 6" by auto
  have "ds \<noteq> []"
  proof
    assume "ds = []"
    with p have "digits_val ?p = 0" using digits_val_zeros [of k "[]"] by (simp add: digits_val_def)
    with False show False by (simp add: digits_val_pad)
  qed
  moreover have "list_all is_digit ds" using dig p by simp
  moreover have "digits_val (ds @ replicate (6 - length ds) ?z) = ?m" using p kl by (metis digits_val_pad)
  moreover have "format_fraction ns = CHR ''.'' # ds" using False ds by (simp add: format_fraction_def Let_def)
  ultimately show ?thesis using kl by (simp add: fraction_micros_def)
qed

lemma format_fraction_last: "format_fraction ns \<noteq> [] \<Longrightarrow> last (format_fraction ns) \<noteq> CHR ''0''"
proof -
  assume "format_fraction ns \<noteq> []"
  then have "format_fraction ns = trim_end_matches (CHR ''0'') (''.'' @ pad_zeros 6 (nat_to_str (min (ns div 1000) 999999)))"
    unfolding format_fraction_def Let_def by (cases "min (ns div 1000) 999999 = 0") (simp_all only: if_True if_False simp_thms)
  with \<open>format_fraction ns \<noteq> []\<close> show ?thesis by (simp only: trim_end_matches_last not_False_eq_True)
qed

lemma truncate_fraction_split:
  assumes "CHR ''.'' \<notin> set a" and "list_all is_digit ds" and "r = [] \<or> \<not> is_digit (hd r)"
  shows "truncate_fraction (a @ ''.'' @ ds @ r) = a @ ''.'' @ take 9 ds @ r"
proof -
  have f: "find_char (CHR ''.'') (a @ ''.'' @ ds @ r) = Some (length a)"
    using find_char_append [OF assms(1)] by simp
  have "takeWhile is_digit (ds @ r) = ds"
    using assms(2,3) by (cases r) (auto simp: list_all_iff takeWhile_append2)
  then have "takeWhile is_digit (drop (length a + 1) (a @ ''.'' @ ds @ r)) = ds" by simp
  with f show ?thesis by (simp add: truncate_fraction_def Let_def)
qed

text \<open>A sample of the libraries for concrete evaluations.\<close>

definition sample_conv :: conv where
  "sample_conv =
     \<lparr>parse_ndt = (\<lambda>_ _. None), parse_dt = (\<lambda>_ _. None), parse_nd = (\<lambda>_ _. None), parse_nt = (\<lambda>_ _. None),
      parse_tz = (\<lambda>_. None), local_single = (\<lambda>_ _. None),
      format_nt = (\<lambda>_ t. two_digits (nt_secs t div 3600) @ '':'' @ two_digits (nt_secs t mod 3600 div 60) @ '':''
        @ two_digits (nt_secs t mod 60)),
      format_utc = (\<lambda>_ _. []),
      micros_since_midnight = (\<lambda>t. Some (int (nt_secs t) * 1000000 + int (nanosecond t) div 1000)),
      decimal_from_str_exact = (\<lambda>_. None), json_text = (\<lambda>_. []), type_name = (\<lambda>_. [])\<rparr>"

section \<open>Properties\<close>

text \<open>C18. A binary integer cell is exact or refused: when a non-null JSON value is encoded for an integer
  column, the integer sent lies in the column's range and is the value of the JSON number (its 64-bit
  integer where it has one, otherwise the whole value of its double), or of the string (the integer it
  spells, otherwise the whole value of the double nearest to it); nothing is truncated, saturated or
  wrapped. Only a JSON null becomes an SQL NULL.\<close>

theorem binary_integer_exact:
  assumes "ty \<in> {INT2, INT4, INT8}" and "\<And>n. v = JNumber n \<Longrightarrow> number_wf n" and "large_stays_large v"
    and "encode_cell cv v ty tt Binary = Inr w"
  shows "v = JNull \<and> w = VNull
    \<or> (\<exists>i. json_is_int v i \<and>
         (ty = INT2 \<and> w = VI16 i \<and> - (2 ^ 15) \<le> i \<and> i < 2 ^ 15
          \<or> ty = INT4 \<and> w = VI32 i \<and> - (2 ^ 31) \<le> i \<and> i < 2 ^ 31
          \<or> ty = INT8 \<and> w = VI64 i \<and> in_i64 i))"
proof (cases "v = JNull")
  case True
  with assms(4) show ?thesis by (simp add: encode_cell_def is_null_def)
next
  case False
  then have "encode_cell cv v ty tt Binary = encode_binary_cell cv v ty tt"
    by (cases v) (simp_all add: encode_cell_def is_null_def)
  with assms obtain i where i: "json_to_i64 v tt = Inr i"
    and w: "ty = INT2 \<and> w = VI16 i \<and> - (2 ^ 15) \<le> i \<and> i < 2 ^ 15
          \<or> ty = INT4 \<and> w = VI32 i \<and> - (2 ^ 31) \<le> i \<and> i < 2 ^ 31
          \<or> ty = INT8 \<and> w = VI64 i"
    by (auto simp: encode_binary_cell_def split: sum.splits if_splits)
  from json_to_i64_exact [OF i assms(3)] json_to_i64_range [OF i assms(2)] w show ?thesis by blast
qed

text \<open>Witness: an integer that no double holds, with the double nearest to it.\<close>

definition odd_number :: json_number where
  "odd_number = \<lparr>as_i64 = Some 9007199254740993, as_u64 = Some 9007199254740993,
     as_f64 = Some (Fin False 4503599627370496 1), num_text = ''9007199254740993''\<rparr>"

theorem binary_integer_exact_witness:
  "\<exists>w. encode_cell sample_conv (JNumber odd_number) INT8 ''bigint'' Binary = Inr w \<and> w = VI64 9007199254740993"
proof -
  have wf: "number_wf odd_number" "large_stays_large (JNumber odd_number)"
    by (simp_all add: number_wf_def large_stays_large_def odd_number_def in_i64_def)
  have "\<exists>w. encode_cell sample_conv (JNumber odd_number) INT8 ''bigint'' Binary = Inr w"
    by (simp add: encode_cell_def is_null_def encode_binary_cell_def json_to_i64_def odd_number_def conv_option_defs)
  then obtain w where w: "encode_cell sample_conv (JNumber odd_number) INT8 ''bigint'' Binary = Inr w" by blast
  from binary_integer_exact [OF _ _ wf(2) w] wf(1) have "w = VI64 9007199254740993"
    by (auto simp: json_is_int_def odd_number_def)
  with w show ?thesis by blast
qed

text \<open>A string with a fraction is read as a double first, so a whole number beyond \<open>2^53\<close> written with a fraction is
  sent rounded.\<close>

theorem decimal_string_rounded:
  "json_to_i64 (JString ''9007199254740993.0'') ''bigint'' = Inr 9007199254740992"
proof -
  have t: "trim ''9007199254740993.0'' = ''9007199254740993.0''" and n: "parse_i64 ''9007199254740993.0'' = None" by code_simp+
  have "f64_of_ratio False 90071992547409930 10 = Fin False 4503599627370496 1"
    by (simp add: f64_of_ratio_def float_of_ratio_def bit_len.simps scaled_def round_even_def)
  moreover have "parse_f64 ''9007199254740993.0'' = Some (f64_of_ratio False 90071992547409930 10)"
    by (simp add: parse_f64_def parse_decimal_def to_ascii_lowercase_def ascii_lower_def is_digit_def parse_exponent_def
        digits_val_def digit_val_def)
  ultimately show ?thesis
    by (simp add: json_to_i64_def t n conv_option_defs f64_to_i64_exact_def f64_as_i64_def f64_num_def Let_def)
qed

text \<open>C33. The outcomes of converting a cell: JSON null is SQL NULL in both formats and nothing else is; the
  conversion to text never fails (writing the field into the row, which can, is a parameter of
  \<^verbatim>\<open>encode_row\<close>); a binary cell of a type outside the supported list is refused with SQLSTATE 0A000; a
  binary cell of a supported type fails only with 22P03 or 22003.\<close>

theorem cell_outcomes:
  "(\<forall>fmt. encode_cell cv v ty tt fmt = Inr VNull \<longleftrightarrow> v = JNull)
   \<and> (\<exists>w. encode_cell cv v ty tt Text = Inr w)
   \<and> (v \<noteq> JNull \<and> ty \<notin> set binary_supported \<longrightarrow>
        encode_cell cv v ty tt Binary = Inl (unsupported_binary_type cv ty tt))
   \<and> (\<forall>e. ty \<in> set binary_supported \<and> encode_cell cv v ty tt Binary = Inl e \<longrightarrow>
        (\<exists>ei. e = UserError ei \<and> code ei \<in> {''22P03'', ''22003''}))"
proof -
  have nn: "is_null v \<longleftrightarrow> v = JNull" by (cases v) (simp_all add: is_null_def)
  have "encode_cell cv v ty tt fmt = Inr VNull \<longleftrightarrow> v = JNull" for fmt
  proof (cases "v = JNull")
    case False
    with text_value_null [of v cv ty tt] binary_cell_not_null [of v cv ty tt] nn show ?thesis
      by (cases fmt) (auto simp: encode_cell_def opt_text_def)
  qed (simp add: encode_cell_def is_null_def)
  moreover have "\<exists>w. encode_cell cv v ty tt Text = Inr w" by (simp add: encode_cell_def)
  moreover have "v \<noteq> JNull \<and> ty \<notin> set binary_supported \<longrightarrow>
      encode_cell cv v ty tt Binary = Inl (unsupported_binary_type cv ty tt)"
    by (simp add: encode_cell_def nn unsupported_binary_type)
  moreover have "\<exists>ei. e = UserError ei \<and> code ei \<in> {''22P03'', ''22003''}"
    if "ty \<in> set binary_supported" "encode_cell cv v ty tt Binary = Inl e" for e
    using supported_binary_type [OF that(1), of cv v tt e] that(2)
    by (auto simp: encode_cell_def nn conversion_error_def out_of_range_def split: if_splits)
  ultimately show ?thesis by blast
qed

theorem cell_outcomes_witness:
  "encode_cell sample_conv (JString ''x'') UUID ''uuid'' Binary = Inl (unsupported_binary_type sample_conv UUID ''uuid'')"
proof -
  have "UUID \<notin> set binary_supported" by (simp add: binary_supported_def)
  with cell_outcomes [of sample_conv "JString ''x''" UUID "''uuid''"] show ?thesis by blast
qed

text \<open>Whole numbers reach an integer column's text intact: when the JSON number answers \<open>as_i64\<close>, or
  only \<open>as_f64\<close> with an integral double in range (Trino may write 42 as 42.0), the text parses back to
  exactly that integer.\<close>

theorem integer_text_roundtrip:
  assumes "to_lowercase base \<in> {''tinyint'', ''smallint'', ''integer'', ''bigint''}" and "number_wf n"
    and "as_i64 n = Some i
      \<or> as_i64 n = None \<and> as_u64 n = None \<and> as_f64 n = Some f \<and> f64_to_i64_exact f = Some i"
  shows "parse_i64 (encode_number n base) = Some i"
  using assms(3)
proof
  assume "as_i64 n = Some i"
  with assms show ?thesis
    by (auto simp: encode_number_def Let_def number_wf_def parse_i64_int_to_str)
next
  assume f: "as_i64 n = None \<and> as_u64 n = None \<and> as_f64 n = Some f \<and> f64_to_i64_exact f = Some i"
  then have "f64_is_finite f" "fits_i64 f" "i = f64_as_i64 f" "in_i64 i"
    using f64_to_i64_exact_SomeD(2) [of f i]
    by (cases f; auto simp: f64_to_i64_exact_def fits_i64_def f64_is_finite_def split: if_splits)+
  with f assms(1) show ?thesis
    by (auto simp: encode_number_def Let_def parse_i64_int_to_str)
qed

theorem integer_text_roundtrip_witness:
  "parse_i64 (encode_number \<lparr>as_i64 = None, as_u64 = None, as_f64 = Some (Fin False 42 0), num_text = ''42.0''\<rparr> ''bigint'')
     = Some 42"
proof (rule integer_text_roundtrip [where f = "Fin False 42 0"])
  show "to_lowercase ''bigint'' \<in> {''tinyint'', ''smallint'', ''integer'', ''bigint''}" by code_simp
  show "number_wf \<lparr>as_i64 = None, as_u64 = None, as_f64 = Some (Fin False 42 0), num_text = ''42.0''\<rparr>"
    by (simp add: number_wf_def)
qed (simp add: f64_to_i64_exact_def f64_as_i64_def f64_num_def)

text \<open>The two formats disagree on fractional numbers in integer columns: for every in-range double
  with a fractional part the text format sends the truncated integer, while the binary format refuses
  the same value.\<close>

theorem fractional_integer_text_truncated:
  assumes "to_lowercase (base_type tt) = ''bigint''"
    and "as_i64 n = None" and "as_u64 n = None" and "as_f64 n = Some (Fin sg m e)"
    and "fits_i64 (Fin sg m e)" and "\<not> f64_integral (Fin sg m e)"
  shows "encode_cell cv (JNumber n) INT8 tt Text = Inr (VText (int_to_str (f64_trunc (Fin sg m e))))
       \<and> encode_cell cv (JNumber n) INT8 tt Binary = Inl (conversion_error ''integer'' tt)"
proof -
  have "f64_as_i64 (Fin sg m e) = f64_trunc (Fin sg m e)"
    using assms(5) by (intro f64_as_i64_in_range) (auto simp: fits_i64_def)
  moreover have "f64_is_finite (Fin sg m e)" by (simp add: f64_is_finite_def)
  ultimately have "encode_number n (base_type tt) = int_to_str (f64_trunc (Fin sg m e))"
    using assms(1-5) by (simp add: encode_number_def Let_def)
  moreover have "f64_to_i64_exact (Fin sg m e) = None" using assms(6) by (simp add: f64_to_i64_exact_def)
  ultimately show ?thesis
    using assms(2-4)
    by (simp add: encode_cell_def is_null_def text_value_def encode_value_def opt_text_def Let_def
        encode_binary_cell_def json_to_i64_def conv_option_defs)
qed

theorem fractional_integer_text_truncated_witness:
  "encode_cell sample_conv (JNumber \<lparr>as_i64 = None, as_u64 = None, as_f64 = Some (Fin False 85 (- 1)), num_text = ''42.5''\<rparr>)
     INT8 ''bigint'' Text = Inr (VText ''42'')"
proof -
  have b: "to_lowercase (base_type ''bigint'') = ''bigint''" by code_simp
  have t: "int_to_str (f64_trunc (Fin False 85 (- 1))) = ''42''" by code_simp
  show ?thesis
    using fractional_integer_text_truncated [OF b, where sg = False and m = 85 and e = "- 1" and cv = sample_conv and
        n = "\<lparr>as_i64 = None, as_u64 = None, as_f64 = Some (Fin False 85 (- 1)), num_text = ''42.5''\<rparr>"]
    by (simp add: fits_i64_def f64_num_def t del: f64_trunc.simps)
qed

text \<open>\<open>truncate_fraction\<close> keeps at most nine fraction digits and changes nothing else: with the first
  dot after \<open>a\<close>, a run of digits \<open>ds\<close> and a rest \<open>r\<close> that does not go on with a digit, it returns
  \<open>a\<close>, the dot, the first nine digits and \<open>r\<close>. Picosecond values therefore keep their zone suffix.\<close>

theorem truncate_fraction_nine_digits:
  assumes "CHR ''.'' \<notin> set a" and "list_all is_digit ds" and "r = [] \<or> \<not> is_digit (hd r)"
  shows "truncate_fraction (a @ ''.'' @ ds @ r) = a @ ''.'' @ take 9 ds @ r
       \<and> truncate_fraction (truncate_fraction (a @ ''.'' @ ds @ r)) = truncate_fraction (a @ ''.'' @ ds @ r)"
proof -
  have "list_all is_digit (take 9 ds)" using assms(2) by (metis append_take_drop_id list_all_append)
  from truncate_fraction_split [OF assms(1) this assms(3)] truncate_fraction_split [OF assms]
  show ?thesis by simp
qed

theorem truncate_fraction_nine_digits_witness:
  "truncate_fraction (''10:30:00'' @ ''.'' @ ''123456789012'' @ ''+02:00'') = ''10:30:00.123456789+02:00''"
proof -
  have "CHR ''.'' \<notin> set ''10:30:00''" "list_all is_digit ''123456789012''" "\<not> is_digit (hd ''+02:00'')"
    by code_simp+
  from truncate_fraction_nine_digits [OF this(1,2), of "''+02:00''"] this(3) show ?thesis by simp
qed

text \<open>PostgreSQL's fraction spelling loses nothing below its microsecond resolution: reading the text
  back gives the whole microseconds (a leap second saturates at 999999), the text never ends in a
  zero, and it is empty exactly for a zero fraction.\<close>

theorem format_fraction_roundtrip:
  "fraction_micros (format_fraction ns) = Some (min (ns div 1000) 999999)
   \<and> (format_fraction ns = [] \<longleftrightarrow> ns < 1000) \<and> last (''x'' @ format_fraction ns) \<noteq> CHR ''0''"
proof -
  have "format_fraction ns = [] \<longleftrightarrow> ns < 1000"
  proof
    assume "format_fraction ns = []"
    with fraction_micros_format [of ns] have "min (ns div 1000) 999999 = 0" by (simp add: fraction_micros_def)
    then show "ns < 1000" by (simp add: min_def div_eq_0_iff split: if_splits)
  qed (simp add: format_fraction_def)
  with fraction_micros_format format_fraction_last [of ns] show ?thesis by simp
qed

text \<open>Offset texts are unambiguous: every offset, in hours, minutes and seconds of either sign, is read
  back exactly from its shortest spelling.\<close>

theorem utc_offset_roundtrip: "parse_utc_offset (format_utc_offset z) = Some z"
  by (rule parse_utc_offset_format)

text \<open>C36. The wire form of a \<open>timetz\<close> is faithful: twelve bytes, from which the receiver reads back the
  microseconds since midnight and the offset in seconds west, the negation of the stored one.\<close>

theorem timetz_wire_roundtrip:
  assumes "micros_since_midnight cv (tz_time t) = Some us" and "in_i64 us"
    and "- (2 ^ 31) < offset_east_seconds t" and "offset_east_seconds t < 2 ^ 31"
  shows "\<exists>bs. to_sql cv t = Inr bs \<and> length bs = 12 \<and> (\<forall>b \<in> set bs. b < 256)
     \<and> be_signed (take 8 bs) = us \<and> be_signed (drop 8 bs) = - offset_east_seconds t"
proof -
  let ?bs = "put_i64 us @ put_i32 (- offset_east_seconds t)"
  have "to_sql cv t = Inr ?bs" using assms(1) by (simp add: to_sql_def)
  moreover have "length ?bs = 12" by (simp add: put_i64_def put_i32_def)
  moreover have "\<forall>b \<in> set ?bs. b < 256" using be_bytes_range by (auto simp: put_i64_def put_i32_def)
  moreover have "be_signed (put_i64 us) = us"
    using be_signed_mod [of 8 us] assms(2) by (simp add: put_i64_def in_i64_def)
  moreover have "be_signed (put_i32 (- offset_east_seconds t)) = - offset_east_seconds t"
    using be_signed_mod [of 4 "- offset_east_seconds t"] assms(3,4) by (simp add: put_i32_def)
  moreover have "length (put_i64 us) = 8" by (simp add: put_i64_def)
  ultimately show ?thesis by (intro exI [of _ ?bs]) simp
qed

theorem timetz_wire_roundtrip_witness:
  "\<exists>bs. to_sql sample_conv \<lparr>tz_time = \<lparr>nt_secs = 37800, nanosecond = 0\<rparr>, offset_east_seconds = 7200\<rparr> = Inr bs
     \<and> length bs = 12 \<and> be_signed (take 8 bs) = 37800000000 \<and> be_signed (drop 8 bs) = - 7200"
  using timetz_wire_roundtrip [of sample_conv "\<lparr>tz_time = \<lparr>nt_secs = 37800, nanosecond = 0\<rparr>, offset_east_seconds = 7200\<rparr>"
      37800000000]
  by (auto simp: sample_conv_def in_i64_def)

end
