(* ===== verification/Catalog.thy ===== *)
theory Catalog
  imports Types_Encode
begin

text \<open>
  Model of \<^verbatim>\<open>src/catalog/\<close>: the response builder, the static \<^verbatim>\<open>pg_type\<close>, \<^verbatim>\<open>pg_namespace\<close> and stub
  tables, the synthetic object ids, the responses built from Trino's information schema, and the two
  dispatchers. Parameters: the row encoder \<open>enc\<close> of the wire library (the error of encoding a value at a
  column, if any), Trino's answer \<open>get_all\<close> to a query (an error text or rows), the object id \<open>oid_of\<close>
  of a wire type, and the inspection \<open>refs\<close> telling which tables a query references.
\<close>

section \<open>Responses\<close>

record field_info =
  fi_name :: str
  fi_table_id :: "int option"
  fi_column_id :: "int option"
  fi_type :: pg_type
  fi_format :: field_format

text \<open>A \<open>Response::Query\<close> over rows that are all at hand.\<close>

datatype response = QueryResponse "field_info list" "pg_value list list"

type_synonym row_encoder = "field_info list \<Rightarrow> nat \<Rightarrow> pg_value \<Rightarrow> pgwire_error option"

definition text_field :: "str \<Rightarrow> pg_type \<Rightarrow> field_info" where
  "text_field name ty =
     \<lparr>fi_name = name, fi_table_id = None, fi_column_id = None, fi_type = ty, fi_format = Text\<rparr>"

definition json_str :: "json list \<Rightarrow> nat \<Rightarrow> str \<Rightarrow> str" where
  "json_str values idx dflt =
     (if idx < length values
      then (case as_str (values ! idx) of Some s \<Rightarrow> s | None \<Rightarrow> dflt) else dflt)"

text \<open>The fields of one row in order, stopping at the first error.\<close>

fun encode_fields :: "row_encoder \<Rightarrow> field_info list \<Rightarrow> nat \<Rightarrow> pg_value list \<Rightarrow> unit pg_result" where
  "encode_fields enc schema i [] = Inr ()"
| "encode_fields enc schema i (v # vs) =
     (case enc schema i v of
        Some e \<Rightarrow> Inl e
      | None \<Rightarrow> encode_fields enc schema (Suc i) vs)"

fun encode_rows :: "row_encoder \<Rightarrow> field_info list \<Rightarrow> str option list list \<Rightarrow> pg_value list list pg_result" where
  "encode_rows enc schema [] = Inr []"
| "encode_rows enc schema (row # rows) =
     (case encode_fields enc schema 0 (map opt_text row) of
        Inl e \<Rightarrow> Inl e
      | Inr _ \<Rightarrow> map_ok ((#) (map opt_text row)) (encode_rows enc schema rows))"

definition build_response ::
  "row_encoder \<Rightarrow> field_info list \<Rightarrow> str option list list \<Rightarrow> response list pg_result" where
  "build_response enc schema rows = map_ok (\<lambda>rs. [QueryResponse schema rs]) (encode_rows enc schema rows)"

section \<open>Static tables\<close>

definition empty_composite_fields :: "row_encoder \<Rightarrow> response list pg_result" where
  "empty_composite_fields enc =
     build_response enc [text_field ''oid'' INT4, text_field ''attname'' VARCHAR, text_field ''atttypid'' INT4] []"

definition empty_enum_labels :: "row_encoder \<Rightarrow> response list pg_result" where
  "empty_enum_labels enc =
     build_response enc [text_field ''oid'' INT4, text_field ''enumlabel'' VARCHAR] []"

definition empty_pg_range :: "row_encoder \<Rightarrow> response list pg_result" where
  "empty_pg_range enc =
     build_response enc
       [text_field ''rngtypid'' INT4, text_field ''rngsubtype'' INT4, text_field ''rngmultitypid'' INT4] []"

definition namespace_rows :: "str option list list" where
  "namespace_rows =
     [[Some ''11'', Some ''pg_catalog''],
      [Some ''2200'', Some ''public''],
      [Some ''13171'', Some ''information_schema'']]"

definition respond_pg_namespace :: "row_encoder \<Rightarrow> response list pg_result" where
  "respond_pg_namespace enc =
     build_response enc [text_field ''oid'' INT4, text_field ''nspname'' VARCHAR] namespace_rows"

section \<open>The type table\<close>

record type_entry =
  te_oid :: nat
  typname :: str
  typtype :: str
  elemtypoid :: nat

definition type_entry_of :: "nat \<Rightarrow> str \<Rightarrow> str \<Rightarrow> nat \<Rightarrow> type_entry" where
  "type_entry_of i n t e = \<lparr>te_oid = i, typname = n, typtype = t, elemtypoid = e\<rparr>"

definition BASE_TYPES :: "type_entry list" where
  "BASE_TYPES =
     [type_entry_of 16 ''bool'' ''b'' 0,
      type_entry_of 17 ''bytea'' ''b'' 0,
      type_entry_of 20 ''int8'' ''b'' 0,
      type_entry_of 21 ''int2'' ''b'' 0,
      type_entry_of 23 ''int4'' ''b'' 0,
      type_entry_of 25 ''text'' ''b'' 0,
      type_entry_of 26 ''oid'' ''b'' 0,
      type_entry_of 114 ''json'' ''b'' 0,
      type_entry_of 142 ''xml'' ''b'' 0,
      type_entry_of 700 ''float4'' ''b'' 0,
      type_entry_of 701 ''float8'' ''b'' 0,
      type_entry_of 869 ''inet'' ''b'' 0,
      type_entry_of 1042 ''bpchar'' ''b'' 0,
      type_entry_of 1043 ''varchar'' ''b'' 0,
      type_entry_of 1082 ''date'' ''b'' 0,
      type_entry_of 1083 ''time'' ''b'' 0,
      type_entry_of 1114 ''timestamp'' ''b'' 0,
      type_entry_of 1184 ''timestamptz'' ''b'' 0,
      type_entry_of 1186 ''interval'' ''b'' 0,
      type_entry_of 1266 ''timetz'' ''b'' 0,
      type_entry_of 1700 ''numeric'' ''b'' 0,
      type_entry_of 2950 ''uuid'' ''b'' 0,
      type_entry_of 3802 ''jsonb'' ''b'' 0]"

definition PSEUDO_TYPES :: "type_entry list" where
  "PSEUDO_TYPES =
     [type_entry_of 705 ''unknown'' ''p'' 0,
      type_entry_of 2249 ''record'' ''p'' 0,
      type_entry_of 2278 ''void'' ''p'' 0]"

definition ARRAY_TYPES :: "type_entry list" where
  "ARRAY_TYPES =
     [type_entry_of 199 ''_json'' ''a'' 114,
      type_entry_of 1000 ''_bool'' ''a'' 16,
      type_entry_of 1001 ''_bytea'' ''a'' 17,
      type_entry_of 1005 ''_int2'' ''a'' 21,
      type_entry_of 1007 ''_int4'' ''a'' 23,
      type_entry_of 1009 ''_text'' ''a'' 25,
      type_entry_of 1014 ''_bpchar'' ''a'' 1042,
      type_entry_of 1015 ''_varchar'' ''a'' 1043,
      type_entry_of 1016 ''_int8'' ''a'' 20,
      type_entry_of 1021 ''_float4'' ''a'' 700,
      type_entry_of 1022 ''_float8'' ''a'' 701,
      type_entry_of 1028 ''_oid'' ''a'' 26,
      type_entry_of 1041 ''_inet'' ''a'' 869,
      type_entry_of 1115 ''_timestamp'' ''a'' 1114,
      type_entry_of 1182 ''_date'' ''a'' 1082,
      type_entry_of 1183 ''_time'' ''a'' 1083,
      type_entry_of 1185 ''_timestamptz'' ''a'' 1184,
      type_entry_of 1187 ''_interval'' ''a'' 1186,
      type_entry_of 1231 ''_numeric'' ''a'' 1700,
      type_entry_of 2951 ''_uuid'' ''a'' 2950,
      type_entry_of 3807 ''_jsonb'' ''a'' 3802]"

definition pg_type_schema :: "field_info list" where
  "pg_type_schema =
     [text_field ''nspname'' VARCHAR, text_field ''typname'' VARCHAR, text_field ''oid'' INT4,
      text_field ''typrelid'' INT4, text_field ''typbasetype'' INT4, text_field ''type'' VARCHAR,
      text_field ''elemoid'' INT4, text_field ''ord'' INT4]"

definition entry_to_row :: "type_entry \<Rightarrow> str option list" where
  "entry_to_row e =
     (let ord = (if typtype e = ''a'' then ''3'' else if typtype e = ''r'' then ''2''
                 else if typtype e = ''d'' then ''1'' else ''0'')
      in [Some ''pg_catalog'', Some (typname e), Some (nat_to_str (te_oid e)), Some ''0'', Some ''0'',
          Some (typtype e), Some (nat_to_str (elemtypoid e)), Some ord])"

definition type_entries :: "type_entry list" where
  "type_entries = BASE_TYPES @ PSEUDO_TYPES @ ARRAY_TYPES"

definition respond_type_loading :: "row_encoder \<Rightarrow> response list pg_result" where
  "respond_type_loading enc = build_response enc pg_type_schema (map entry_to_row type_entries)"

section \<open>Synthetic object ids\<close>

definition BASE_TABLE_OID :: "32 word" where "BASE_TABLE_OID = 16384"
definition PUBLIC_NAMESPACE_OID :: "32 word" where "PUBLIC_NAMESPACE_OID = 2200"
definition BASE_NAMESPACE_OID :: "32 word" where "BASE_NAMESPACE_OID = 20000"

definition djb2_byte :: "32 word \<Rightarrow> char \<Rightarrow> 32 word" where
  "djb2_byte h b = h * 33 + of_nat (byte b)"

fun djb2_parts :: "32 word \<Rightarrow> nat \<Rightarrow> str list \<Rightarrow> 32 word" where
  "djb2_parts h i [] = h"
| "djb2_parts h i (part # parts) =
     (let h' = (if 0 < i then h * 33 + 0xFF else h)
      in djb2_parts (foldl djb2_byte h' part) (Suc i) parts)"

definition djb2_oid :: "str list \<Rightarrow> 32 word \<Rightarrow> 32 word" where
  "djb2_oid parts base = base + (djb2_parts 5381 0 parts mod (0x7FFFFFFF - base))"

definition table_oid :: "str \<Rightarrow> str \<Rightarrow> 32 word" where
  "table_oid schema_name table_name = djb2_oid [schema_name, table_name] BASE_TABLE_OID"

definition namespace_oid :: "str \<Rightarrow> 32 word" where
  "namespace_oid schema_name =
     (if schema_name = ''public'' then PUBLIC_NAMESPACE_OID else djb2_oid [schema_name] BASE_NAMESPACE_OID)"

section \<open>Tables from Trino's information schema\<close>

definition relkind :: "str \<Rightarrow> str" where
  "relkind table_type =
     (let u = to_uppercase table_type in
      if u = ''BASE TABLE'' then ''r'' else if u = ''VIEW'' then ''v'' else ''r'')"

definition word_text :: "32 word \<Rightarrow> str" where
  "word_text w = nat_to_str (unat w)"

definition pg_class_sql :: str where
  "pg_class_sql =
     ''SELECT table_schema, table_name, table_type FROM information_schema.tables WHERE table_schema NOT IN ('' @
     [CHR 0x27] @ ''information_schema'' @ [CHR 0x27] @ '')''"

definition pg_class_row :: "json list \<Rightarrow> str option list" where
  "pg_class_row values =
     (let schema_name = json_str values 0 ''public''; tbl_name = json_str values 1 [];
          tbl_type = json_str values 2 ''BASE TABLE''
      in [Some (word_text (table_oid schema_name tbl_name)), Some tbl_name,
          Some (word_text (namespace_oid schema_name)), Some (relkind tbl_type)])"

type_synonym trino_get_all = "str \<Rightarrow> str + json list list"

definition respond_pg_class :: "row_encoder \<Rightarrow> trino_get_all \<Rightarrow> response list pg_result" where
  "respond_pg_class enc get_all =
     (case get_all pg_class_sql of
        Inl e \<Rightarrow> Inl (ApiError e)
      | Inr dataset \<Rightarrow>
          build_response enc
            [text_field ''oid'' INT4, text_field ''relname'' VARCHAR, text_field ''relnamespace'' INT4,
             text_field ''relkind'' VARCHAR]
            (map pg_class_row dataset))"

definition pg_attribute_sql :: str where
  "pg_attribute_sql =
     ''SELECT table_schema, table_name, column_name, ordinal_position, is_nullable, data_type '' @
     ''FROM information_schema.columns WHERE table_schema NOT IN ('' @ [CHR 0x27] @ ''information_schema'' @
     [CHR 0x27] @ '') ORDER BY table_schema, table_name, ordinal_position''"

definition ordinal_of :: "json list \<Rightarrow> int" where
  "ordinal_of values =
     (case (if 3 < length values
            then or_else (json_as_i64 (values ! 3)) (Option.bind (as_str (values ! 3)) parse_i64)
            else None) of
        Some i \<Rightarrow> i | None \<Rightarrow> 0)"

definition pg_attribute_row :: "(pg_type \<Rightarrow> nat) \<Rightarrow> json list \<Rightarrow> str option list" where
  "pg_attribute_row oid_of values =
     (let schema_name = json_str values 0 ''public''; tbl_name = json_str values 1 [];
          col_name = json_str values 2 []; ordinal = ordinal_of values;
          is_nullable = json_str values 4 ''YES''; data_type = json_str values 5 ''varchar'';
          attrelid = table_oid schema_name tbl_name;
          atttypid = oid_of (trino_type_to_pg data_type);
          attnotnull = (if is_nullable = ''NO'' then ''true'' else ''false'')
      in [Some (word_text attrelid), Some col_name, Some (nat_to_str atttypid), Some (int_to_str ordinal),
          Some attnotnull, Some ''false''])"

definition respond_pg_attribute ::
  "row_encoder \<Rightarrow> (pg_type \<Rightarrow> nat) \<Rightarrow> trino_get_all \<Rightarrow> response list pg_result" where
  "respond_pg_attribute enc oid_of get_all =
     (case get_all pg_attribute_sql of
        Inl e \<Rightarrow> Inl (ApiError e)
      | Inr dataset \<Rightarrow>
          build_response enc
            [text_field ''attrelid'' INT4, text_field ''attname'' VARCHAR, text_field ''atttypid'' INT4,
             text_field ''attnum'' INT2, text_field ''attnotnull'' BOOL, text_field ''attisdropped'' BOOL]
            (map (pg_attribute_row oid_of) dataset))"

section \<open>Dispatch\<close>

definition handle_catalog_query :: "row_encoder \<Rightarrow> (str \<Rightarrow> bool) \<Rightarrow> response list pg_result option" where
  "handle_catalog_query enc refs =
     (if refs ''pg_attribute'' \<and> refs ''pg_type'' then Some (empty_composite_fields enc)
      else if refs ''pg_enum'' then Some (empty_enum_labels enc)
      else if refs ''pg_type'' then Some (respond_type_loading enc)
      else if refs ''pg_range'' then Some (empty_pg_range enc)
      else if refs ''pg_namespace'' then Some (respond_pg_namespace enc)
      else None)"

definition handle_dynamic_catalog_query ::
  "row_encoder \<Rightarrow> (pg_type \<Rightarrow> nat) \<Rightarrow> trino_get_all \<Rightarrow> (str \<Rightarrow> bool) \<Rightarrow> response list pg_result option" where
  "handle_dynamic_catalog_query enc oid_of get_all refs =
     (if refs ''pg_attribute'' \<and> refs ''pg_type'' then None
      else if refs ''pg_class'' then Some (respond_pg_class enc get_all)
      else if refs ''pg_attribute'' then Some (respond_pg_attribute enc oid_of get_all)
      else None)"

section \<open>Lemmas\<close>

lemma encode_fields_total:
  "(\<And>i v. enc schema i v = None) \<Longrightarrow> encode_fields enc schema i vs = Inr ()"
  by (induction vs arbitrary: i) auto

lemma encode_rows_total:
  "(\<And>i v. enc schema i v = None) \<Longrightarrow> encode_rows enc schema rows = Inr (map (map opt_text) rows)"
  by (induction rows) (auto simp: encode_fields_total map_ok_def)

lemma encode_rows_Inr: "encode_rows enc schema rows = Inr rs \<Longrightarrow> rs = map (map opt_text) rows"
  by (induction rows arbitrary: rs) (auto split: sum.splits)

lemma build_response_Inr: "build_response enc schema rows = Inr r \<Longrightarrow> r = [QueryResponse schema (map (map opt_text) rows)]"
  by (auto simp: build_response_def dest: encode_rows_Inr)

lemma unat_djb2_oid:
  assumes "unat base < 2 ^ 31 - 1"
  shows "unat (djb2_oid parts base) = unat base + unat (djb2_parts 5381 0 parts) mod (2 ^ 31 - 1 - unat base)"
proof -
  let ?h = "djb2_parts 5381 0 parts" and ?m = "0x7FFFFFFF - base"
  have m: "unat ?m = 2 ^ 31 - 1 - unat base"
  proof -
    have "base \<le> 0x7FFFFFFF" using assms by (simp add: word_le_nat_alt)
    then show ?thesis by (simp add: unat_sub)
  qed
  have lt: "unat (?h mod ?m) < 2 ^ 31 - 1 - unat base"
    using assms m by (simp add: unat_mod)
  then have "unat base + unat (?h mod ?m) < 2 ^ 32" using assms by simp
  then show ?thesis unfolding djb2_oid_def by (subst unat_add_lem [THEN iffD1]) (simp_all add: unat_mod m)
qed

lemma djb2_oid_range:
  assumes "unat base < 2 ^ 31 - 1"
  shows "unat base \<le> unat (djb2_oid parts base) \<and> unat (djb2_oid parts base) < 2 ^ 31 - 1"
proof -
  have "unat (djb2_parts 5381 0 parts) mod (2 ^ 31 - 1 - unat base) < 2 ^ 31 - 1 - unat base"
    using assms by (intro mod_less_divisor) simp
  with assms show ?thesis unfolding unat_djb2_oid [OF assms] by linarith
qed

lemma base_ranges: "unat BASE_TABLE_OID = 16384" "unat BASE_NAMESPACE_OID = 20000" "unat PUBLIC_NAMESPACE_OID = 2200"
  by (simp_all add: BASE_TABLE_OID_def BASE_NAMESPACE_OID_def PUBLIC_NAMESPACE_OID_def)

lemma table_oid_range: "16384 \<le> unat (table_oid s t) \<and> unat (table_oid s t) < 2 ^ 31 - 1"
  using djb2_oid_range [of BASE_TABLE_OID "[s, t]"] by (simp add: table_oid_def base_ranges)

lemma namespace_oid_range:
  "s \<noteq> ''public'' \<Longrightarrow> 20000 \<le> unat (namespace_oid s) \<and> unat (namespace_oid s) < 2 ^ 31 - 1"
  using djb2_oid_range [of BASE_NAMESPACE_OID "[s]"] by (simp add: namespace_oid_def base_ranges)

lemma digits_val_word_text: "digits_val (word_text w) = unat w"
  by (simp add: word_text_def digits_val_nat_to_str)

text \<open>The types the mapping can produce.\<close>

definition mapped_scalars :: "pg_type list" where
  "mapped_scalars =
     [BOOL, INT2, INT4, INT8, FLOAT4, FLOAT8, NUMERIC, VARCHAR, BPCHAR, BYTEA, DATE, TIME, TIMETZ,
      TIMESTAMP, TIMESTAMPTZ, INTERVAL, JSONB, UUID, INET, TEXT]"

definition mapped_types :: "pg_type list" where
  "mapped_types = mapped_scalars @ map scalar_to_array mapped_scalars"

lemma base_name_mapped: "base_name_to_pg b \<in> set mapped_scalars"
  by (simp add: base_name_to_pg_def mapped_scalars_def)

lemma scalar_to_array_mapped: "t \<in> set mapped_types \<Longrightarrow> scalar_to_array t \<in> set mapped_types"
  by (auto simp: mapped_types_def mapped_scalars_def scalar_to_array_def)

lemma trino_type_to_pg_mapped: "trino_type_to_pg t \<in> set mapped_types"
proof (induction t rule: trino_type_to_pg.induct)
  case (1 t)
  let ?n = "to_lowercase (trim t)"
  show ?case
  proof (cases "starts_with ?n ''array('' \<and> ends_with ?n '')''")
    case True
    with 1 have "trino_type_to_pg (drop 6 (take (length ?n - 1) ?n)) \<in> set mapped_types" by blast
    with True show ?thesis by (simp add: trino_type_to_pg.simps [of t] Let_def scalar_to_array_mapped)
  next
    case False
    then show ?thesis
      using base_name_mapped by (auto simp: trino_type_to_pg.simps [of t] Let_def mapped_types_def)
  qed
qed

text \<open>PostgreSQL's object ids of these types, which the wire library's \<open>Type::oid\<close> returns.\<close>

definition documented_oids :: "(pg_type \<times> nat) list" where
  "documented_oids =
     [(BOOL, 16), (INT2, 21), (INT4, 23), (INT8, 20), (FLOAT4, 700), (FLOAT8, 701), (NUMERIC, 1700),
      (VARCHAR, 1043), (BPCHAR, 1042), (BYTEA, 17), (DATE, 1082), (TIME, 1083), (TIMETZ, 1266),
      (TIMESTAMP, 1114), (TIMESTAMPTZ, 1184), (INTERVAL, 1186), (JSONB, 3802), (UUID, 2950), (INET, 869),
      (TEXT, 25), (BOOL_ARRAY, 1000), (INT2_ARRAY, 1005), (INT4_ARRAY, 1007), (INT8_ARRAY, 1016),
      (FLOAT4_ARRAY, 1021), (FLOAT8_ARRAY, 1022), (NUMERIC_ARRAY, 1231), (VARCHAR_ARRAY, 1015),
      (BPCHAR_ARRAY, 1014), (BYTEA_ARRAY, 1001), (DATE_ARRAY, 1182), (TIME_ARRAY, 1183),
      (TIMETZ_ARRAY, 1270), (TIMESTAMP_ARRAY, 1115), (TIMESTAMPTZ_ARRAY, 1185), (INTERVAL_ARRAY, 1187),
      (JSONB_ARRAY, 3807), (UUID_ARRAY, 2951), (INET_ARRAY, 1041), (TEXT_ARRAY, 1009)]"

definition oids_documented :: "(pg_type \<Rightarrow> nat) \<Rightarrow> bool" where
  "oids_documented oid_of \<longleftrightarrow> list_all (\<lambda>(t, i). oid_of t = i) documented_oids"

lemma documented_oid: "oids_documented oid_of \<Longrightarrow> map_of documented_oids t = Some i \<Longrightarrow> oid_of t = i"
  by (auto simp: oids_documented_def list_all_iff dest!: map_of_SomeD)

lemma types_announced:
  "list_all (\<lambda>t. t = TIMETZ_ARRAY \<or>
     (case map_of documented_oids t of None \<Rightarrow> False | Some i \<Rightarrow> i \<in> set (map te_oid type_entries))) mapped_types"
  by code_simp

lemma arrays_listed:
  "list_all (\<lambda>t. t = TIMETZ \<or>
     (case (map_of documented_oids t, map_of documented_oids (scalar_to_array t)) of
        (Some i, Some j) \<Rightarrow> list_ex (\<lambda>e. te_oid e = j \<and> elemtypoid e = i) ARRAY_TYPES
      | _ \<Rightarrow> False)) mapped_scalars"
  by code_simp

section \<open>Properties\<close>

text \<open>C37. Synthetic ids are usable: the id of a table lies in \<open>[16384, 2^31 - 1)\<close>, above PostgreSQL's
  system range and within a positive int4, no 32-bit step overflows into the sign; the id of a schema
  other than \<open>public\<close> lies in \<open>[20000, 2^31 - 1)\<close>, and \<open>public\<close> has PostgreSQL's id 2200. Only
  \<open>public\<close> is therefore found in the static \<open>pg_namespace\<close> table.\<close>

theorem synthetic_oids_in_range:
  "16384 \<le> unat (table_oid s t) \<and> unat (table_oid s t) < 2 ^ 31 - 1
   \<and> (if s = ''public'' then unat (namespace_oid s) = 2200
      else 20000 \<le> unat (namespace_oid s) \<and> unat (namespace_oid s) < 2 ^ 31 - 1)
   \<and> (Some (word_text (namespace_oid s)) \<in> set (map hd namespace_rows) \<longleftrightarrow> s = ''public'')"
proof -
  have ns: "if s = ''public'' then unat (namespace_oid s) = 2200
      else 20000 \<le> unat (namespace_oid s) \<and> unat (namespace_oid s) < 2 ^ 31 - 1"
    using namespace_oid_range [of s] by (simp add: namespace_oid_def base_ranges)
  have "Some (word_text (namespace_oid s)) \<in> set (map hd namespace_rows) \<longleftrightarrow> s = ''public''"
  proof
    assume "Some (word_text (namespace_oid s)) \<in> set (map hd namespace_rows)"
    then have "word_text (namespace_oid s) \<in> {''11'', ''2200'', ''13171''}" by (auto simp: namespace_rows_def)
    then have "digits_val (word_text (namespace_oid s)) \<in> {11, 2200, 13171}"
      by (auto simp: digits_val_def digit_val_def)
    with ns show "s = ''public''" by (auto simp: digits_val_word_text split: if_splits)
  next
    assume "s = ''public''"
    then have "word_text (namespace_oid s) = nat_to_str 2200" using ns by (simp add: word_text_def)
    also have "nat_to_str 2200 = ''2200''" by code_simp
    finally show "Some (word_text (namespace_oid s)) \<in> set (map hd namespace_rows)" by (simp add: namespace_rows_def)
  qed
  with ns table_oid_range show ?thesis by blast
qed

text \<open>C38. Tables and columns agree: when both catalog responses succeed, a \<open>pg_attribute\<close> row refers by
  \<open>attrelid\<close> to exactly the \<open>oid\<close> that \<open>pg_class\<close> gives the table of the same schema and name, and both
  responses have one row per row of Trino's answer.\<close>

theorem attribute_rows_refer_to_class_rows:
  assumes "get_all pg_class_sql = Inr tables" and "get_all pg_attribute_sql = Inr columns"
    and "respond_pg_class enc get_all = Inr [QueryResponse sc crows]"
    and "respond_pg_attribute enc oid_of get_all = Inr [QueryResponse sa arows]"
  shows "length crows = length tables \<and> length arows = length columns
    \<and> (\<forall>i < length tables. \<forall>j < length columns.
         json_str (tables ! i) 0 ''public'' = json_str (columns ! j) 0 ''public'' \<and>
         json_str (tables ! i) 1 [] = json_str (columns ! j) 1 [] \<longrightarrow> hd (arows ! j) = hd (crows ! i))"
proof -
  have c: "crows = map (map opt_text) (map pg_class_row tables)"
    using assms(1,3) by (auto simp: respond_pg_class_def dest: build_response_Inr)
  have a: "arows = map (map opt_text) (map (pg_attribute_row oid_of) columns)"
    using assms(2,4) by (auto simp: respond_pg_attribute_def dest: build_response_Inr)
  show ?thesis unfolding c a by (auto simp: pg_class_row_def pg_attribute_row_def Let_def)
qed

definition sample_get_all :: trino_get_all where
  "sample_get_all q =
     (if q = pg_class_sql then Inr [[JString ''sf1'', JString ''nation'', JString ''BASE TABLE'']]
      else Inr [[JString ''sf1'', JString ''nation'', JString ''name'', JString ''2'', JString ''NO'', JString ''varchar(25)'']])"

lemma catalog_sql_distinct: "pg_attribute_sql \<noteq> pg_class_sql"
  by code_simp

theorem attribute_rows_refer_to_class_rows_witness:
  "\<exists>sc crows sa arows. respond_pg_class (\<lambda>_ _ _. None) sample_get_all = Inr [QueryResponse sc crows]
     \<and> respond_pg_attribute (\<lambda>_ _ _. None) (\<lambda>_. 1043) sample_get_all = Inr [QueryResponse sa arows]
     \<and> hd (arows ! 0) = hd (crows ! 0)"
proof -
  define q where "q = [[JString ''sf1'', JString ''nation'', JString ''BASE TABLE'']]"
  define r where "r = [[JString ''sf1'', JString ''nation'', JString ''name'', JString ''2'', JString ''NO'', JString ''varchar(25)'']]"
  have g: "sample_get_all pg_class_sql = Inr q" "sample_get_all pg_attribute_sql = Inr r"
    using catalog_sql_distinct by (simp_all add: sample_get_all_def q_def r_def)
  obtain sc crows where c: "respond_pg_class (\<lambda>_ _ _. None) sample_get_all = Inr [QueryResponse sc crows]"
    using g by (simp add: respond_pg_class_def build_response_def encode_rows_total map_ok_def)
  obtain sa arows where a: "respond_pg_attribute (\<lambda>_ _ _. None) (\<lambda>_. 1043) sample_get_all = Inr [QueryResponse sa arows]"
    using g by (simp add: respond_pg_attribute_def build_response_def encode_rows_total map_ok_def)
  from attribute_rows_refer_to_class_rows [OF g c a] have "hd (arows ! 0) = hd (crows ! 0)"
    by (simp add: q_def r_def json_str_def as_str_def)
  with c a show ?thesis by blast
qed

text \<open>The type table is well formed and in dependency order: the ids are distinct, every row has the
  columns of the schema, the \<open>ord\<close> column never decreases, and the element type of every array is a
  base type that stands earlier in the table.\<close>

theorem type_table_in_dependency_order:
  "distinct (map te_oid type_entries)
   \<and> list_all (\<lambda>r. length r = length pg_type_schema) (map entry_to_row type_entries)
   \<and> sorted (map (\<lambda>r. digits_val (the (last r))) (map entry_to_row type_entries))
   \<and> list_all (\<lambda>e. if typtype e = ''a''
        then elemtypoid e \<in> set (map te_oid BASE_TYPES) \<and> typname e = ''_'' @ typname (the (List.find (\<lambda>b. te_oid b = elemtypoid e) BASE_TYPES))
        else elemtypoid e = 0) type_entries"
proof -
  have "distinct (map te_oid type_entries)" by code_simp
  moreover have "list_all (\<lambda>r. length r = length pg_type_schema) (map entry_to_row type_entries)" by code_simp
  moreover have "sorted (map (\<lambda>r. digits_val (the (last r))) (map entry_to_row type_entries))" by code_simp
  moreover have "list_all (\<lambda>e. if typtype e = ''a''
        then elemtypoid e \<in> set (map te_oid BASE_TYPES) \<and> typname e = ''_'' @ typname (the (List.find (\<lambda>b. te_oid b = elemtypoid e) BASE_TYPES))
        else elemtypoid e = 0) type_entries" by code_simp
  ultimately show ?thesis by blast
qed

text \<open>C39. What \<open>pg_attribute\<close> reports is announced by \<open>pg_type\<close>, with one gap: with PostgreSQL's object
  ids, the type of every Trino column is in the type table, except the array of \<open>time with time zone\<close>,
  whose id 1270 the table does not have.\<close>

theorem column_types_announced:
  assumes "oids_documented oid_of"
  shows "(trino_type_to_pg t \<noteq> TIMETZ_ARRAY \<longrightarrow> oid_of (trino_type_to_pg t) \<in> set (map te_oid type_entries))
       \<and> trino_type_to_pg ''array(time with time zone)'' = TIMETZ_ARRAY
       \<and> oid_of TIMETZ_ARRAY \<notin> set (map te_oid type_entries)"
proof -
  have "oid_of (trino_type_to_pg t) \<in> set (map te_oid type_entries)" if "trino_type_to_pg t \<noteq> TIMETZ_ARRAY"
    using types_announced trino_type_to_pg_mapped [of t] that documented_oid [OF assms]
    by (fastforce simp: list_all_iff split: option.splits)
  moreover have "trino_type_to_pg ''array(time with time zone)'' = TIMETZ_ARRAY" by code_simp
  moreover have "oid_of TIMETZ_ARRAY = 1270"
    by (rule documented_oid [OF assms]) (simp add: documented_oids_def)
  moreover have "1270 \<notin> set (map te_oid type_entries)" by code_simp
  ultimately show ?thesis by simp
qed

theorem column_types_announced_witness:
  "oids_documented (\<lambda>t. the (map_of documented_oids t))
   \<and> the (map_of documented_oids TIMETZ_ARRAY) \<notin> set (map te_oid type_entries)"
proof -
  have "oids_documented (\<lambda>t. the (map_of documented_oids t))" by code_simp
  with column_types_announced [of "\<lambda>t. the (map_of documented_oids t)"] show ?thesis by blast
qed

text \<open>C35. Arrays map elementwise, by PostgreSQL's own tables: for every ASCII Trino type \<open>t\<close> that maps to a scalar
  type, \<open>array(t)\<close> maps to the type that \<open>pg_type\<close> lists as the array of exactly that scalar type (for \<open>time
  with time zone\<close>, which the table lacks, to its array type), and arrays of arrays are text arrays.\<close>

theorem array_types_elementwise:
  assumes "is_ascii t" and "oids_documented oid_of"
  shows "(trino_type_to_pg t \<in> set mapped_scalars \<longrightarrow>
      trino_type_to_pg t = TIMETZ \<and> trino_type_to_pg (''array('' @ t @ '')'') = TIMETZ_ARRAY
      \<or> (\<exists>e \<in> set ARRAY_TYPES. te_oid e = oid_of (trino_type_to_pg (''array('' @ t @ '')''))
           \<and> elemtypoid e = oid_of (trino_type_to_pg t)))
    \<and> (trino_type_to_pg t \<notin> set mapped_scalars \<longrightarrow> trino_type_to_pg (''array('' @ t @ '')'') = TEXT_ARRAY)
    \<and> trino_type_to_pg (''array('' @ (''array('' @ t @ '')'') @ '')'') = TEXT_ARRAY"
proof -
  have "\<exists>e \<in> set ARRAY_TYPES. te_oid e = oid_of (scalar_to_array ty) \<and> elemtypoid e = oid_of ty"
    if ty: "ty \<in> set mapped_scalars" "ty \<noteq> TIMETZ" for ty
  proof -
    obtain i j e where "map_of documented_oids ty = Some i" "map_of documented_oids (scalar_to_array ty) = Some j"
      "e \<in> set ARRAY_TYPES" "te_oid e = j" "elemtypoid e = i"
      using arrays_listed ty by (fastforce simp: list_all_iff list_ex_iff split: option.splits)
    then show ?thesis using documented_oid [OF assms(2)] by metis
  qed
  moreover have "scalar_to_array ty = TEXT_ARRAY" if "ty \<in> set mapped_types" "ty \<notin> set mapped_scalars" for ty
    using that by (auto simp: mapped_types_def mapped_scalars_def scalar_to_array_def)
  moreover have "scalar_to_array TIMETZ = TIMETZ_ARRAY" by (simp add: scalar_to_array_def)
  ultimately show ?thesis using array_maps_elementwise [OF assms(1)] trino_type_to_pg_mapped [of t] by metis
qed

theorem array_types_elementwise_witness:
  "\<exists>e \<in> set ARRAY_TYPES. te_oid e = the (map_of documented_oids (trino_type_to_pg (''array('' @ ''integer'' @ '')'')))
     \<and> elemtypoid e = 23"
proof -
  have a: "is_ascii ''integer''" and o: "oids_documented (\<lambda>t. the (map_of documented_oids t))" by code_simp+
  have t: "trino_type_to_pg ''integer'' = INT4" by code_simp
  have m: "INT4 \<in> set mapped_scalars" "the (map_of documented_oids INT4) = 23" by code_simp+
  from array_types_elementwise [OF a o] show ?thesis unfolding t using m by auto
qed

text \<open>The static tables come first: a query that mentions \<open>pg_namespace\<close>, \<open>pg_range\<close>, \<open>pg_enum\<close> or
  \<open>pg_type\<close> is answered by the static handler, so \<open>pg_class\<close> is read from Trino only when none of these is
  joined to it; in particular a join of \<open>pg_class\<close> with \<open>pg_namespace\<close> gets the namespace table alone.\<close>

theorem static_catalog_shadows_pg_class:
  "(handle_catalog_query enc refs = None \<longleftrightarrow>
      \<not> refs ''pg_enum'' \<and> \<not> refs ''pg_type'' \<and> \<not> refs ''pg_range'' \<and> \<not> refs ''pg_namespace'')
   \<and> handle_catalog_query enc (\<lambda>t. t \<in> {''pg_class'', ''pg_namespace''}) = Some (respond_pg_namespace enc)
   \<and> handle_dynamic_catalog_query enc oid_of get_all (\<lambda>t. t \<in> {''pg_class'', ''pg_namespace''})
      = Some (respond_pg_class enc get_all)"
  by (simp add: handle_catalog_query_def handle_dynamic_catalog_query_def)

end
