(* ===== verification/Query_Inspection.thy ===== *)
theory Query_Inspection
  imports Gateway_Prelude
begin

text \<open>
  The SQL syntax trees the gateway inspects and rewrites, and the model of
  \<^verbatim>\<open>src/query_inspection.rs\<close>. The trees are those of the parser library, with the constructors and
  fields the gateway names; what it never looks at is a number. Parsing, printing and the traversals
  are functions of the record \<open>sql_lib\<close>: \<open>relations\<close> and \<open>expressions\<close> list the nodes in the order the
  library's visitors reach them.
\<close>

section \<open>Syntax trees\<close>

record ident =
  id_value :: str
  id_quote :: "char option"

datatype object_name_part = PartIdentifier ident | PartFunction nat

datatype sql_value = Number str bool | SingleQuotedString str | SqlNull | OtherValue nat

datatype data_type =
    DtText | DtInt2 "nat option" | DtInt4 "nat option" | DtInt8 "nat option" | DtFloat4 | DtFloat8
  | DtBool | DtBytea | DtVarchar "nat option" | DtSmallInt "nat option" | DtInteger "nat option"
  | DtBigInt "nat option" | DtReal | DtDoublePrecision | DtBoolean | DtVarbinary "nat option"
  | DtOther nat

datatype cast_kind = CkCast | CkDoubleColon | CkOther nat

text \<open>
  \<open>fn_extra\<close> stands for the fields of a call the gateway neither reads nor changes; 0 is a call without
  any of them. \<open>la_extra\<close> is the same for an argument list.
\<close>

datatype expr =
    Identifier ident
  | CompoundIdentifier "ident list"
  | Function func
  | Value sql_value
  | Cast cast_kind expr data_type nat
  | ILike bool bool expr expr "sql_value option"
  | Like bool bool expr expr "sql_value option"
  | OtherExpr nat
and func = Func (fn_name: "object_name_part list") (fn_parameters: function_arguments)
    (fn_args: function_arguments) (fn_extra: nat)
and function_arguments = ArgsNone | ArgsSubquery nat | ArgsList "function_arg list" nat
and function_arg = Unnamed function_arg_expr | Named nat function_arg_expr | ExprNamed expr function_arg_expr
and function_arg_expr = FaExpr expr | FaOther nat

datatype select_item =
    UnnamedExpr expr | ExprWithAlias expr ident | Wildcard nat | QualifiedWildcard str nat

datatype group_by_expr = GroupExpressions "expr list" "nat list" | GroupAll nat

record select =
  projection :: "select_item list"
  sel_from :: "nat list"
  selection :: "expr option"
  group_by :: group_by_expr
  having :: "expr option"
  cluster_by :: "expr list"
  distribute_by :: "expr list"
  sort_by :: "expr list"
  qualify :: "expr option"

datatype limit_clause =
    LimitOffset (lim: "expr option") (off: "expr option") (lim_by: "expr list")
  | OffsetCommaLimit expr expr

record fetch =
  with_ties :: bool
  percent :: bool
  quantity :: "expr option"

datatype set_expr = Select select | OtherBody nat

record query =
  q_with :: "nat option"
  q_body :: set_expr
  order_by :: "nat option"
  limit_clause :: "limit_clause option"
  q_fetch :: "fetch option"

datatype statement = Query query | OtherStatement nat

text \<open>
  The parser library: \<^verbatim>\<open>Parser::parse_sql\<close> (and the two-step form of the rewriter), the visiting orders
  of \<^verbatim>\<open>visit_relations\<close> and \<^verbatim>\<open>visit_expressions\<close>, the mutable visits of expressions and of queries, and
  \<^verbatim>\<open>Display\<close> of statements. A qualified wildcard carries its printed qualifier.
\<close>

record sql_lib =
  parse_sql :: "str \<Rightarrow> statement list option"
  parse_statements :: "str \<Rightarrow> statement list option"
  relations :: "statement list \<Rightarrow> object_name_part list list"
  expressions :: "statement list \<Rightarrow> expr list"
  visit_exprs :: "(expr \<Rightarrow> expr) \<Rightarrow> statement \<Rightarrow> statement"
  visit_queries :: "(query \<Rightarrow> query) \<Rightarrow> statement \<Rightarrow> statement"
  stmt_text :: "statement \<Rightarrow> str"

section \<open>Inspection\<close>

record parsed_query =
  parsed :: "statement list option"

definition parsed_query_new :: "sql_lib \<Rightarrow> str \<Rightarrow> parsed_query" where
  "parsed_query_new lib sql = \<lparr>parsed = parse_sql lib sql\<rparr>"

definition as_ident :: "object_name_part \<Rightarrow> ident option" where
  "as_ident p = (case p of PartIdentifier i \<Rightarrow> Some i | PartFunction _ \<Rightarrow> None)"

definition last_opt :: "'a list \<Rightarrow> 'a option" where
  "last_opt xs = (if xs = [] then None else Some (last xs))"

definition ident_is :: "object_name_part option \<Rightarrow> str \<Rightarrow> bool" where
  "ident_is p want =
     (case Option.bind p as_ident of
        Some i \<Rightarrow> eq_ignore_ascii_case (id_value i) want
      | None \<Rightarrow> False)"

definition last_ident_eq :: "object_name_part list \<Rightarrow> str \<Rightarrow> bool" where
  "last_ident_eq parts want = ident_is (last_opt parts) want"

definition references_table :: "sql_lib \<Rightarrow> parsed_query \<Rightarrow> str \<Rightarrow> bool" where
  "references_table lib pq name =
     (case parsed pq of
        None \<Rightarrow> False
      | Some stmts \<Rightarrow> list_ex (\<lambda>obj. last_ident_eq obj name) (relations lib stmts))"

definition qualified_ok :: "str \<Rightarrow> object_name_part list \<Rightarrow> bool" where
  "qualified_ok schema parts =
     (let n = length parts in
      if n = 1 then True
      else if 2 \<le> n then ident_is (Some (parts ! (n - 2))) schema
      else False)"

definition references_table_in_schema :: "sql_lib \<Rightarrow> parsed_query \<Rightarrow> str \<Rightarrow> str \<Rightarrow> bool" where
  "references_table_in_schema lib pq schema name =
     (case parsed pq of
        None \<Rightarrow> False
      | Some stmts \<Rightarrow>
          list_ex (\<lambda>parts. last_ident_eq parts name \<and> qualified_ok schema parts) (relations lib stmts))"

definition is_call_to :: "str \<Rightarrow> expr \<Rightarrow> bool" where
  "is_call_to name e = (case e of Function f \<Rightarrow> last_ident_eq (fn_name f) name | _ \<Rightarrow> False)"

definition calls_function :: "sql_lib \<Rightarrow> parsed_query \<Rightarrow> str \<Rightarrow> bool" where
  "calls_function lib pq name =
     (case parsed pq of
        None \<Rightarrow> False
      | Some stmts \<Rightarrow> list_ex (is_call_to name) (expressions lib stmts))"

definition calls_function_or_keyword :: "sql_lib \<Rightarrow> parsed_query \<Rightarrow> str \<Rightarrow> bool" where
  "calls_function_or_keyword lib pq name =
     (calls_function lib pq name \<or>
      (case parsed pq of
         None \<Rightarrow> False
       | Some stmts \<Rightarrow>
           list_ex (\<lambda>e. case e of Identifier i \<Rightarrow> eq_ignore_ascii_case (id_value i) name | _ \<Rightarrow> False)
             (expressions lib stmts)))"

definition first_string_literal_arg :: "function_arguments \<Rightarrow> str option" where
  "first_string_literal_arg args =
     (case args of
        ArgsList (a # _) _ \<Rightarrow>
          (let fa = (case a of Unnamed x \<Rightarrow> x | Named _ x \<Rightarrow> x | ExprNamed _ x \<Rightarrow> x) in
           case fa of
             FaExpr (Value (SingleQuotedString s)) \<Rightarrow> Some s
           | _ \<Rightarrow> None)
      | _ \<Rightarrow> None)"

definition string_arg_of :: "str \<Rightarrow> expr \<Rightarrow> str option" where
  "string_arg_of name e =
     (case e of
        Function f \<Rightarrow> if last_ident_eq (fn_name f) name then first_string_literal_arg (fn_args f) else None
      | _ \<Rightarrow> None)"

definition function_string_arg :: "sql_lib \<Rightarrow> parsed_query \<Rightarrow> str \<Rightarrow> str option" where
  "function_string_arg lib pq name =
     (case parsed pq of
        None \<Rightarrow> None
      | Some stmts \<Rightarrow>
          (case List.find (\<lambda>e. string_arg_of name e \<noteq> None) (expressions lib stmts) of
             Some e \<Rightarrow> string_arg_of name e
           | None \<Rightarrow> None))"

definition returns_rows :: "parsed_query \<Rightarrow> bool" where
  "returns_rows pq = (case parsed pq of Some (Query _ # _) \<Rightarrow> True | _ \<Rightarrow> False)"

definition has_group_by :: "select \<Rightarrow> bool" where
  "has_group_by s = (case group_by s of GroupExpressions es mods \<Rightarrow> es \<noteq> [] \<or> mods \<noteq> [] | GroupAll _ \<Rightarrow> True)"

definition bare_select :: "parsed_query \<Rightarrow> select option" where
  "bare_select pq =
     (case parsed pq of
        Some [Query q] \<Rightarrow>
          (if q_with q \<noteq> None \<or> order_by q \<noteq> None \<or> limit_clause q \<noteq> None \<or> q_fetch q \<noteq> None then None
           else case q_body q of
             Select s \<Rightarrow>
               (if sel_from s \<noteq> [] \<or> selection s \<noteq> None \<or> has_group_by s \<or> having s \<noteq> None
                   \<or> cluster_by s \<noteq> [] \<or> distribute_by s \<noteq> [] \<or> sort_by s \<noteq> [] \<or> qualify s \<noteq> None
                   \<or> length (projection s) \<noteq> 1
                then None else Some s)
           | OtherBody _ \<Rightarrow> None)
      | _ \<Rightarrow> None)"

definition is_bare_scalar_select :: "parsed_query \<Rightarrow> bool" where
  "is_bare_scalar_select pq = (bare_select pq \<noteq> None)"

definition unnamed_select_name :: "expr \<Rightarrow> str" where
  "unnamed_select_name e =
     (case e of
        Identifier i \<Rightarrow> id_value i
      | CompoundIdentifier parts \<Rightarrow> (case last_opt parts of Some p \<Rightarrow> id_value p | None \<Rightarrow> ''?column?'')
      | Function f \<Rightarrow>
          (case Option.bind (last_opt (fn_name f)) as_ident of Some i \<Rightarrow> id_value i | None \<Rightarrow> ''?column?'')
      | _ \<Rightarrow> ''?column?'')"

definition select_item_name :: "select_item \<Rightarrow> str" where
  "select_item_name item =
     (case item of
        UnnamedExpr e \<Rightarrow> unnamed_select_name e
      | ExprWithAlias _ alias \<Rightarrow> id_value alias
      | Wildcard _ \<Rightarrow> ''*''
      | QualifiedWildcard name _ \<Rightarrow> name @ ''.*'')"

definition select_column_names :: "parsed_query \<Rightarrow> str list" where
  "select_column_names pq =
     (case parsed pq of
        Some (Query q # _) \<Rightarrow>
          (case q_body q of Select s \<Rightarrow> map select_item_name (projection s) | OtherBody _ \<Rightarrow> [])
      | _ \<Rightarrow> [])"

section \<open>Lemmas\<close>

lemma eq_ignore_ascii_case_refl [simp]: "eq_ignore_ascii_case s s"
  by (simp add: eq_ignore_ascii_case_def)

lemma eq_ignore_ascii_case_trans:
  "eq_ignore_ascii_case a b \<Longrightarrow> eq_ignore_ascii_case b c \<Longrightarrow> eq_ignore_ascii_case a c"
  by (simp add: eq_ignore_ascii_case_def)

lemma references_in_schema_references:
  "references_table_in_schema lib pq schema name \<Longrightarrow> references_table lib pq name"
  by (auto simp: references_table_in_schema_def references_table_def list_ex_iff split: option.splits)

lemma references_table_case:
  "eq_ignore_ascii_case n m \<Longrightarrow> references_table lib pq n = references_table lib pq m"
  by (simp add: references_table_def last_ident_eq_def ident_is_def eq_ignore_ascii_case_def split: option.splits)

lemma bare_select_SomeD:
  assumes "bare_select pq = Some s"
  shows "\<exists>q item. parsed pq = Some [Query q] \<and> q_body q = Select s \<and> projection s = [item] \<and> sel_from s = []
           \<and> selection s = None \<and> limit_clause q = None"
proof -
  from assms obtain q where q: "parsed pq = Some [Query q]"
    by (auto simp: bare_select_def split: option.splits list.splits statement.splits)
  with assms have "q_body q = Select s" "sel_from s = []" "selection s = None" "limit_clause q = None" "length (projection s) = 1"
    by (auto simp: bare_select_def split: if_splits set_expr.splits)
  with q show ?thesis by (auto simp: length_Suc_conv)
qed

text \<open>A library that parses every text but one to no statement, with given relations, for concrete evaluations.\<close>

definition sample_lib :: "object_name_part list list \<Rightarrow> sql_lib" where
  "sample_lib rels = \<lparr>parse_sql = (\<lambda>s. if s = [] then None else Some []), parse_statements = (\<lambda>_. None), relations = (\<lambda>_. rels),
     expressions = (\<lambda>_. []), visit_exprs = (\<lambda>_ st. st), visit_queries = (\<lambda>_ st. st), stmt_text = (\<lambda>_. [])\<rparr>"

definition plain_ident :: "str \<Rightarrow> object_name_part" where
  "plain_ident s = PartIdentifier \<lparr>id_value = s, id_quote = None\<rparr>"

section \<open>Properties\<close>

text \<open>Inspection errs on the side of forwarding: when the text does not parse, no table is referenced, no
  function called, nothing returns rows and no column is named, so no intercept that looks at the tree can
  fire; a reference
  in a schema is a reference, and table names match without regard to ASCII case.\<close>

theorem inspection_conservative:
  "(parse_sql lib sql = None \<longrightarrow>
      \<not> references_table lib (parsed_query_new lib sql) name
    \<and> \<not> references_table_in_schema lib (parsed_query_new lib sql) schema name
    \<and> \<not> calls_function_or_keyword lib (parsed_query_new lib sql) name
    \<and> function_string_arg lib (parsed_query_new lib sql) name = None
    \<and> \<not> returns_rows (parsed_query_new lib sql) \<and> \<not> is_bare_scalar_select (parsed_query_new lib sql)
    \<and> select_column_names (parsed_query_new lib sql) = [])
   \<and> (references_table_in_schema lib pq schema name \<longrightarrow> references_table lib pq name)
   \<and> (eq_ignore_ascii_case name name' \<longrightarrow> references_table lib pq name = references_table lib pq name')
   \<and> (is_bare_scalar_select pq \<longrightarrow> returns_rows pq \<and> length (select_column_names pq) = 1)"
proof -
  have "is_bare_scalar_select pq \<Longrightarrow> returns_rows pq \<and> length (select_column_names pq) = 1"
    by (auto simp: is_bare_scalar_select_def returns_rows_def select_column_names_def dest!: bare_select_SomeD)
  then show ?thesis
    using references_in_schema_references [of lib pq schema name] references_table_case [of name name' lib pq]
    by (auto simp: parsed_query_new_def references_table_def references_table_in_schema_def calls_function_or_keyword_def
        calls_function_def function_string_arg_def returns_rows_def is_bare_scalar_select_def bare_select_def
        select_column_names_def)
qed

theorem inspection_conservative_witness:
  "\<not> references_table (sample_lib [[plain_ident ''t'']]) (parsed_query_new (sample_lib [[plain_ident ''t'']]) []) ''t''
   \<and> references_table (sample_lib [[plain_ident ''t'']]) (parsed_query_new (sample_lib [[plain_ident ''t'']]) ''q'') ''T''"
proof -
  let ?l = "sample_lib [[plain_ident ''t'']]"
  have n: "parse_sql ?l [] = None" by (simp add: sample_lib_def)
  have e: "eq_ignore_ascii_case ''t'' ''T''" by code_simp
  have "references_table ?l (parsed_query_new ?l ''q'') ''t''" by code_simp
  moreover have "references_table ?l (parsed_query_new ?l ''q'') ''t'' = references_table ?l (parsed_query_new ?l ''q'') ''T''"
    using inspection_conservative [of ?l "[]" "''t''" "[]" "parsed_query_new ?l ''q''" "''T''"] e by blast
  ultimately show ?thesis
    using inspection_conservative [of ?l "[]" "''t''" "[]" "parsed_query_new ?l []" "''t''"] n by simp
qed

end
