(* ===== verification/Intercept.thy ===== *)
theory Intercept
  imports Catalog Startup Query_Inspection
begin

text \<open>
  Model of \<^verbatim>\<open>src/intercept.rs\<close> and \<^verbatim>\<open>src/info_schema.rs\<close>: the statements the gateway answers itself
  (session commands, transactions, \<open>SHOW\<close>, server functions, \<open>pg_stat_ssl\<close>, the static catalog, missing
  information-schema tables) and the rewriting of Power BI's column query.
\<close>

section \<open>Responses of the gateway's own\<close>

datatype local_response = LocalQuery "field_info list" "pg_value list list" | Execution str

definition local_of :: "response \<Rightarrow> local_response" where
  "local_of r = (case r of QueryResponse schema rows \<Rightarrow> LocalQuery schema rows)"

definition single_text_response :: "row_encoder \<Rightarrow> str \<Rightarrow> str \<Rightarrow> local_response list pg_result" where
  "single_text_response enc column_name value =
     (let fields = [text_field column_name VARCHAR] in
      case enc fields 0 (VText value) of
        Some e \<Rightarrow> Inl e
      | None \<Rightarrow> Inr [LocalQuery fields [[VText value]]])"

definition single_bool_response :: "row_encoder \<Rightarrow> str \<Rightarrow> bool \<Rightarrow> local_response list pg_result" where
  "single_bool_response enc column_name value =
     (let fields = [text_field column_name BOOL] in
      case enc fields 0 (VBool value) of
        Some e \<Rightarrow> Inl e
      | None \<Rightarrow> Inr [LocalQuery fields [[VBool value]]])"

section \<open>Information schema\<close>

definition MISSING_TABLES :: "str list" where
  "MISSING_TABLES =
     [''referential_constraints'', ''table_constraints'', ''key_column_usage'', ''constraint_column_usage'',
      ''constraint_table_usage'', ''check_constraints'']"

definition empty_query_response :: "parsed_query \<Rightarrow> local_response list pg_result" where
  "empty_query_response pq =
     (let names = select_column_names pq;
          columns = (if names = [] then [''column''] else names)
      in Inr [LocalQuery (map (\<lambda>name. text_field name VARCHAR) columns) []])"

definition intercept_missing_information_schema ::
  "sql_lib \<Rightarrow> parsed_query \<Rightarrow> local_response list pg_result option" where
  "intercept_missing_information_schema lib pq =
     (if list_ex (references_table_in_schema lib pq ''information_schema'') MISSING_TABLES
      then Some (empty_query_response pq) else None)"

text \<open>A quoted SQL string.\<close>

definition quoted :: "str \<Rightarrow> str" where
  "quoted s = [CHR 0x27] @ s @ [CHR 0x27]"

definition type_mapping :: str where
  "type_mapping =
     ''CASE WHEN lower(data_type) = '' @ quoted ''double'' @ '' THEN '' @ quoted ''double precision'' @
     '' WHEN lower(data_type) LIKE '' @ quoted ''varchar%'' @ '' THEN '' @ quoted ''character varying'' @
     '' WHEN lower(data_type) LIKE '' @ quoted ''char(%'' @ '' THEN '' @ quoted ''character'' @
     '' WHEN lower(data_type) LIKE '' @ quoted ''%timestamp%with time zone%'' @ '' THEN '' @ quoted ''timestamp with time zone'' @
     '' WHEN lower(data_type) LIKE '' @ quoted ''timestamp%'' @ '' THEN '' @ quoted ''timestamp without time zone'' @
     '' WHEN lower(data_type) LIKE '' @ quoted ''%time%with time zone%'' @ '' THEN '' @ quoted ''time with time zone'' @
     '' WHEN lower(data_type) LIKE '' @ quoted ''time%'' @ '' THEN '' @ quoted ''time without time zone'' @
     '' WHEN lower(data_type) LIKE '' @ quoted ''decimal%'' @ '' THEN '' @ quoted ''numeric'' @
     '' WHEN lower(data_type) = '' @ quoted ''varbinary'' @ '' THEN '' @ quoted ''bytea'' @ '' ELSE data_type END''"

definition powerbi_marker :: str where
  "powerbi_marker = ''CASE WHEN (DATA_TYPE LIKE '' @ quoted ''%UNSIGNED%'' @ '')''"

definition end_marker :: str where
  "end_marker = ''END AS DATA_TYPE''"

definition rewrite_info_schema_columns :: "sql_lib \<Rightarrow> str \<Rightarrow> parsed_query \<Rightarrow> str option" where
  "rewrite_info_schema_columns lib query pq =
     (if \<not> references_table_in_schema lib pq ''information_schema'' ''columns'' then None
      else let upper = to_ascii_uppercase query in
        if contains upper powerbi_marker then
          (case find_sub powerbi_marker upper of
             None \<Rightarrow> None
           | Some start \<Rightarrow>
               (case find_sub end_marker (drop start upper) of
                  None \<Rightarrow> None
                | Some end_pos \<Rightarrow>
                    (let end_off = start + end_pos + length end_marker in
                     Some (take start query @ type_mapping @ '' AS DATA_TYPE'' @ drop end_off query))))
        else None)"

section \<open>Server functions and SHOW\<close>

definition intercept_show :: "row_encoder \<Rightarrow> str \<Rightarrow> local_response list pg_result" where
  "intercept_show enc trimmed =
     (let param = to_lowercase (trim (drop 4 trimmed));
          value = (case List.find (\<lambda>(k, _). eq_ignore_ascii_case k param) SERVER_PARAMS of
                     Some (_, v) \<Rightarrow> v
                   | None \<Rightarrow> ''on'')
      in single_text_response enc param value)"

definition intercept_server_functions ::
  "row_encoder \<Rightarrow> sql_lib \<Rightarrow> parsed_query \<Rightarrow> str \<Rightarrow> str \<Rightarrow> local_response list pg_result option" where
  "intercept_server_functions enc lib pq catalog schema =
     (if \<not> is_bare_scalar_select pq then None
      else if calls_function lib pq ''version'' then
        Some (single_text_response enc ''version''
          ''PostgreSQL 16.6 on x86_64-pc-linux-gnu, compiled by gcc 12.2.0, 64-bit'')
      else if calls_function lib pq ''current_database'' then
        Some (single_text_response enc ''current_database'' catalog)
      else if calls_function_or_keyword lib pq ''current_schema'' then
        Some (single_text_response enc ''current_schema'' schema)
      else if calls_function lib pq ''pg_is_in_recovery'' then
        Some (single_text_response enc ''pg_is_in_recovery'' ''false'')
      else case function_string_arg lib pq ''current_setting'' of
        None \<Rightarrow> None
      | Some setting \<Rightarrow>
          if setting = ''server_version_num'' then Some (single_text_response enc ''current_setting'' ''160006'')
          else if setting = ''server_version'' then Some (single_text_response enc ''current_setting'' ''16.6'')
          else None)"

definition txn_tag :: "str \<Rightarrow> str option" where
  "txn_tag upper =
     (if upper = ''BEGIN'' \<or> starts_with upper ''BEGIN '' \<or> starts_with upper ''START TRANSACTION'' then Some ''BEGIN''
      else if upper = ''COMMIT'' \<or> upper = ''END'' then Some ''COMMIT''
      else if upper = ''ROLLBACK'' \<or> starts_with upper ''ROLLBACK '' then Some ''ROLLBACK''
      else None)"

definition try_intercept ::
  "row_encoder \<Rightarrow> sql_lib \<Rightarrow> str \<Rightarrow> parsed_query \<Rightarrow> str \<Rightarrow> str \<Rightarrow> bool \<Rightarrow> local_response list pg_result option" where
  "try_intercept enc lib query pq catalog schema client_is_secure =
     (if trim query = [] then None
      else let trimmed = trim (trim_end_matches (CHR '';'') (trim query)); upper = to_uppercase trimmed in
        if starts_with upper ''SET '' then Some (Inr [Execution ''SET''])
        else case txn_tag upper of
          Some tag \<Rightarrow> Some (Inr [Execution tag])
        | None \<Rightarrow>
            if starts_with upper ''DISCARD '' \<or> starts_with upper ''DEALLOCATE '' \<or> upper = ''CLOSE ALL''
            then Some (Inr [Execution ''OK''])
            else if starts_with upper ''SHOW '' then Some (intercept_show enc trimmed)
            else case intercept_server_functions enc lib pq catalog schema of
              Some resp \<Rightarrow> Some resp
            | None \<Rightarrow>
                if references_table lib pq ''pg_stat_ssl'' then Some (single_bool_response enc ''ssl'' client_is_secure)
                else case handle_catalog_query enc (references_table lib pq) of
                  Some resp \<Rightarrow> Some (map_ok (map local_of) resp)
                | None \<Rightarrow>
                    if references_table_in_schema lib pq ''information_schema'' ''character_sets''
                    then Some (single_text_response enc ''character_set_name'' ''UTF8'')
                    else intercept_missing_information_schema lib pq)"

section \<open>Lemmas\<close>

lemma to_ascii_uppercase_length [simp]: "length (to_ascii_uppercase s) = length s"
  by (simp add: to_ascii_uppercase_def)

lemma upper_drop: "drop n (to_ascii_uppercase s) = to_ascii_uppercase (drop n s)"
  by (simp add: to_ascii_uppercase_def drop_map)

lemma upper_take: "take n (to_ascii_uppercase s) = to_ascii_uppercase (take n s)"
  by (simp add: to_ascii_uppercase_def take_map)

lemma rewrite_info_schema_columns_SomeD:
  assumes "rewrite_info_schema_columns lib query pq = Some sql"
  obtains start end_pos where
    "find_sub powerbi_marker (to_ascii_uppercase query) = Some start"
    "find_sub end_marker (drop start (to_ascii_uppercase query)) = Some end_pos"
    "sql = take start query @ type_mapping @ '' AS DATA_TYPE'' @ drop (start + end_pos + length end_marker) query"
    "references_table_in_schema lib pq ''information_schema'' ''columns''"
  using assms
  by (auto simp: rewrite_info_schema_columns_def Let_def split: if_splits option.splits)

lemma ascii_upper_ascii: "byte (ascii_upper c) < 128 \<longleftrightarrow> byte c < 128"
  by (auto simp: ascii_upper_def of_char_of)

lemma upper_ascii_nth:
  assumes "i < length s" and "byte (to_ascii_uppercase s ! i) < 128"
  shows "byte (s ! i) < 128"
  using assms by (simp add: to_ascii_uppercase_def ascii_upper_ascii)

lemma utf8_before_marker:
  assumes "utf8 (a @ r)" and "prefix powerbi_marker (to_ascii_uppercase r)"
  shows "utf8 a"
proof -
  from assms(2) obtain c r' where cr: "r = c # r'" "ascii_upper c = CHR ''C''"
    by (cases r) (auto simp: powerbi_marker_def to_ascii_uppercase_def)
  then have "byte c < 128" using ascii_upper_ascii [of c] by simp
  with assms(1) cr(1) show ?thesis by (metis utf8_at_ascii(1))
qed

lemma utf8_after_marker:
  assumes "utf8 (m @ b)" and "suffix end_marker (to_ascii_uppercase m)"
  shows "utf8 b"
proof -
  obtain m' where m': "to_ascii_uppercase m = m' @ end_marker" using assms(2) by (auto simp: suffix_def)
  then have "m \<noteq> []" by (auto simp: end_marker_def to_ascii_uppercase_def)
  then obtain m0 c where m: "m = m0 @ [c]" by (cases m rule: rev_cases) auto
  with m' have "ascii_upper c = CHR ''E''" by (simp add: end_marker_def to_ascii_uppercase_def append_eq_append_conv2)
  then have "byte c < 128" using ascii_upper_ascii [of c] by simp
  moreover have "utf8 (m0 @ c # b)" using assms(1) m by simp
  ultimately show ?thesis by (rule utf8_at_ascii(2) [rotated])
qed

lemma show_facts:
  "list_all (\<lambda>(k, v).
     (let q = ''SHOW '' @ k; t = trim (trim_end_matches (CHR '';'') (trim q)); u = to_uppercase t in
      trim q \<noteq> [] \<and> t = q \<and> \<not> starts_with u ''SET '' \<and> txn_tag u = None
      \<and> \<not> starts_with u ''DISCARD '' \<and> \<not> starts_with u ''DEALLOCATE '' \<and> u \<noteq> ''CLOSE ALL'' \<and> starts_with u ''SHOW ''
      \<and> to_lowercase (trim (drop 4 t)) = to_ascii_lowercase k
      \<and> map_option snd (List.find (\<lambda>(k', _). eq_ignore_ascii_case k' (to_ascii_lowercase k)) SERVER_PARAMS) = Some v)) SERVER_PARAMS"
  by code_simp

section \<open>Properties\<close>

text \<open>\<open>SHOW\<close> tells what the startup announced: for every server parameter sent in the startup reply,
  \<open>SHOW\<close> of that name is answered by the gateway itself with one row holding the announced value.\<close>

theorem show_reports_startup_parameters:
  assumes "server_parameters k = Some v"
  shows "try_intercept enc lib (''SHOW '' @ k) pq catalog schema tls
    = Some (single_text_response enc (to_ascii_lowercase k) v)"
proof -
  from assms have "(k, v) \<in> set SERVER_PARAMS" by (auto simp: server_parameters_def dest: map_of_SomeD)
  with show_facts have f: "(let q = ''SHOW '' @ k; t = trim (trim_end_matches (CHR '';'') (trim q)); u = to_uppercase t in
      trim q \<noteq> [] \<and> t = q \<and> \<not> starts_with u ''SET '' \<and> txn_tag u = None
      \<and> \<not> starts_with u ''DISCARD '' \<and> \<not> starts_with u ''DEALLOCATE '' \<and> u \<noteq> ''CLOSE ALL'' \<and> starts_with u ''SHOW ''
      \<and> to_lowercase (trim (drop 4 t)) = to_ascii_lowercase k
      \<and> map_option snd (List.find (\<lambda>(k', _). eq_ignore_ascii_case k' (to_ascii_lowercase k)) SERVER_PARAMS) = Some v)"
    by (fastforce simp only: list_all_iff split_conv)
  define q where "q = ''SHOW '' @ k"
  from f [folded q_def] have t: "trim (trim_end_matches (CHR '';'') (trim q)) = q" "trim q \<noteq> []"
    and u: "\<not> starts_with (to_uppercase q) ''SET ''" "txn_tag (to_uppercase q) = None"
      "\<not> starts_with (to_uppercase q) ''DISCARD ''" "\<not> starts_with (to_uppercase q) ''DEALLOCATE ''"
      "to_uppercase q \<noteq> ''CLOSE ALL''" "starts_with (to_uppercase q) ''SHOW ''"
    and p: "to_lowercase (trim (drop 4 q)) = to_ascii_lowercase k"
    and v: "map_option snd (List.find (\<lambda>(k', _). eq_ignore_ascii_case k' (to_ascii_lowercase k)) SERVER_PARAMS) = Some v"
    unfolding Let_def by metis+
  from v obtain k' where "List.find (\<lambda>(k', _). eq_ignore_ascii_case k' (to_ascii_lowercase k)) SERVER_PARAMS = Some (k', v)"
    by auto
  then have "intercept_show enc q = single_text_response enc (to_ascii_lowercase k) v"
    by (simp add: intercept_show_def Let_def p)
  with t u show ?thesis unfolding q_def [symmetric] by (simp add: try_intercept_def Let_def)
qed

theorem show_reports_startup_parameters_witness:
  "try_intercept (\<lambda>_ _ _. None) (sample_lib []) ''SHOW DateStyle'' \<lparr>parsed = None\<rparr> ''c'' ''s'' True
     = Some (Inr [LocalQuery [text_field ''datestyle'' VARCHAR] [[VText ''ISO, MDY'']]])"
proof -
  have "server_parameters ''DateStyle'' = Some ''ISO, MDY''" by code_simp
  from show_reports_startup_parameters [OF this, of "\<lambda>_ _ _. None" "sample_lib []" "\<lparr>parsed = None\<rparr>" "''c''" "''s''" True]
  have "try_intercept (\<lambda>_ _ _. None) (sample_lib []) (''SHOW '' @ ''DateStyle'') \<lparr>parsed = None\<rparr> ''c'' ''s'' True
     = Some (single_text_response (\<lambda>_ _ _. None) (to_ascii_lowercase ''DateStyle'') ''ISO, MDY'')" .
  moreover have "to_ascii_lowercase ''DateStyle'' = ''datestyle''" by code_simp
  ultimately show ?thesis by (simp add: single_text_response_def)
qed

text \<open>C27. The splice for Power BI's column query is local and safe: when the query is rewritten, it splits into
  a part before, the \<open>CASE\<close> expression and a part after; only the expression is replaced, what is kept
  is byte for byte the client's text, the expression starts at the first occurrence of the driver's marker
  and ends with the first end marker after it (none ends earlier), and both cuts fall on character
  boundaries, so the result is valid UTF-8.\<close>

theorem info_schema_splice_is_local:
  assumes "utf8 query" and "rewrite_info_schema_columns lib query pq = Some sql"
  shows "\<exists>a m b. query = a @ m @ b \<and> sql = a @ type_mapping @ '' AS DATA_TYPE'' @ b
    \<and> prefix powerbi_marker (to_ascii_uppercase (m @ b)) \<and> suffix end_marker (to_ascii_uppercase m)
    \<and> \<not> contains (butlast (to_ascii_uppercase m)) end_marker
    \<and> \<not> contains (to_ascii_uppercase a) powerbi_marker
    \<and> utf8 a \<and> utf8 b \<and> utf8 sql"
proof -
  obtain start en where st: "find_sub powerbi_marker (to_ascii_uppercase query) = Some start"
    and en: "find_sub end_marker (to_ascii_uppercase (drop start query)) = Some en"
    and sql: "sql = take start query @ type_mapping @ '' AS DATA_TYPE'' @ drop (start + en + length end_marker) query"
    by (rule rewrite_info_schema_columns_SomeD [OF assms(2)]) (simp add: upper_drop that)
  let ?a = "take start query" and ?r = "drop start query"
  let ?m = "take (en + length end_marker) ?r" and ?b = "drop (en + length end_marker) ?r"
  have b: "drop (start + en + length end_marker) query = ?b" by (simp add: add.commute add.left_commute)
  have q: "query = ?a @ ?m @ ?b" by (simp only: append_take_drop_id)
  have pre: "prefix powerbi_marker (to_ascii_uppercase ?r)"
    using find_sub_SomeD(2) [OF st] by (simp add: upper_drop)
  have em: "to_ascii_uppercase ?m = take en (to_ascii_uppercase ?r) @ end_marker"
  proof -
    have "to_ascii_uppercase ?r = take en (to_ascii_uppercase ?r) @ end_marker @ drop (en + length end_marker) (to_ascii_uppercase ?r)"
      by (rule find_sub_split [OF en])
    moreover have "en \<le> length ?r" using find_sub_SomeD(1) [OF en] by simp
    ultimately show ?thesis
      by (metis (no_types, lifting) append.assoc append_eq_conv_conj length_append length_take min.absorb2 to_ascii_uppercase_length upper_take)
  qed
  have nm: "\<not> contains (to_ascii_uppercase ?a) powerbi_marker"
    using find_sub_first [OF st] by (simp add: contains_iff_sublist upper_take powerbi_marker_def)
  have suf: "suffix end_marker (to_ascii_uppercase ?m)" unfolding em by (rule suffixI [OF refl])
  have one: "\<not> contains (butlast (to_ascii_uppercase ?m)) end_marker"
    using find_sub_unique_end [OF en] by (simp add: contains_iff_sublist upper_take end_marker_def)
  have cut1: "utf8 ?a" using assms(1) pre by (intro utf8_before_marker [of ?a ?r]) (simp only: append_take_drop_id)
  have cut2: "utf8 ?b"
  proof (rule utf8_after_marker [of "?a @ ?m"])
    show "utf8 ((?a @ ?m) @ ?b)" using assms(1) q by (simp only: append.assoc)
    show "suffix end_marker (to_ascii_uppercase (?a @ ?m))"
      unfolding to_ascii_uppercase_def map_append by (rule suffix_appendI) (rule suf [unfolded to_ascii_uppercase_def])
  qed
  define T where "T = type_mapping @ '' AS DATA_TYPE''"
  have "utf8 T" unfolding T_def by (rule utf8_ascii) code_simp
  then have ok: "utf8 (?a @ T @ ?b)" using cut1 cut2 by (simp add: utf8_append)
  have s: "sql = ?a @ T @ ?b" unfolding T_def sql b by simp
  have "prefix powerbi_marker (to_ascii_uppercase (?m @ ?b))" using pre by (simp only: append_take_drop_id)
  moreover have "sql = ?a @ type_mapping @ '' AS DATA_TYPE'' @ ?b" by (simp only: s T_def append.assoc)
  ultimately show ?thesis using q nm suf one cut1 cut2 ok unfolding s [symmetric] by blast
qed

definition sample_powerbi :: str where
  "sample_powerbi = ''SELECT case when (data_type like '' @ quoted ''%unsigned%'' @ '') then 1 end as data_type, case x when 1 then 2 end as data_type FROM c''"

theorem info_schema_splice_is_local_witness:
  "\<exists>sql a m b. rewrite_info_schema_columns (sample_lib [[plain_ident ''columns'']]) sample_powerbi \<lparr>parsed = Some []\<rparr> = Some sql
     \<and> sample_powerbi = a @ m @ b \<and> sql = a @ type_mapping @ '' AS DATA_TYPE'' @ b
     \<and> \<not> contains (butlast (to_ascii_uppercase m)) end_marker \<and> utf8 sql"
proof -
  have u: "utf8 sample_powerbi" by code_simp
  have "rewrite_info_schema_columns (sample_lib [[plain_ident ''columns'']]) sample_powerbi \<lparr>parsed = Some []\<rparr> \<noteq> None" by code_simp
  then obtain sql where
    r: "rewrite_info_schema_columns (sample_lib [[plain_ident ''columns'']]) sample_powerbi \<lparr>parsed = Some []\<rparr> = Some sql" by blast
  from info_schema_splice_is_local [OF u r] r show ?thesis by blast
qed

end
