(* ===== verification/Rewrite.thy ===== *)
theory Rewrite
  imports Query_Inspection Float_Text
begin

text \<open>
  Model of \<^verbatim>\<open>src/rewrite/\<close>: the four rewriters, each as the function its visitor applies to a node, and
  \<^verbatim>\<open>rewrite_sql\<close>, which runs them over a statement with the parser library's traversals. The lemmas give
  the nodes a meaning (row windows, pattern matching) and show what the rewriting preserves.
\<close>

section \<open>Casts\<close>

definition normalize_data_type :: "data_type \<Rightarrow> data_type" where
  "normalize_data_type dt =
     (case dt of
        DtText \<Rightarrow> DtVarchar None
      | DtInt2 _ \<Rightarrow> DtSmallInt None
      | DtInt4 _ \<Rightarrow> DtInteger None
      | DtInt8 _ \<Rightarrow> DtBigInt None
      | DtFloat4 \<Rightarrow> DtReal
      | DtFloat8 \<Rightarrow> DtDoublePrecision
      | DtBool \<Rightarrow> DtBoolean
      | DtBytea \<Rightarrow> DtVarbinary None
      | _ \<Rightarrow> dt)"

definition cast_rewriter :: "expr \<Rightarrow> expr" where
  "cast_rewriter e =
     (case e of
        Cast kind x dt extra \<Rightarrow>
          Cast (if kind = CkDoubleColon then CkCast else kind) x (normalize_data_type dt) extra
      | _ \<Rightarrow> e)"

section \<open>Case-insensitive patterns\<close>

definition make_lower_call :: "expr \<Rightarrow> expr" where
  "make_lower_call inner =
     Function (Func [PartIdentifier \<lparr>id_value = ''lower'', id_quote = None\<rparr>] ArgsNone
       (ArgsList [Unnamed (FaExpr inner)] 0) 0)"

definition ilike_rewriter :: "expr \<Rightarrow> expr" where
  "ilike_rewriter e =
     (case e of
        ILike negated _ inner pattern escape_char \<Rightarrow>
          Like negated False (make_lower_call inner) (make_lower_call pattern) escape_char
      | _ \<Rightarrow> e)"

section \<open>Function names\<close>

definition arg_count :: "function_arguments \<Rightarrow> nat" where
  "arg_count args = (case args of ArgsList as _ \<Rightarrow> length as | _ \<Rightarrow> 0)"

definition trino_function_name :: "str \<Rightarrow> nat \<Rightarrow> str option" where
  "trino_function_name lower n =
     (if lower = ''string_agg'' then Some ''listagg''
      else if lower = ''log'' \<and> n = 1 then Some ''log10''
      else if lower = ''trunc'' then Some ''truncate''
      else None)"

definition function_renamer :: "expr \<Rightarrow> expr" where
  "function_renamer e =
     (case e of
        Function (Func [PartIdentifier i] params args extra) \<Rightarrow>
          (case trino_function_name (to_lowercase (id_value i)) (arg_count args) of
             Some name \<Rightarrow> Function (Func [PartIdentifier (i\<lparr>id_value := name\<rparr>)] params args extra)
           | None \<Rightarrow> e)
      | _ \<Rightarrow> e)"

section \<open>Limit and offset\<close>

definition f64_is_zero :: "f64 \<Rightarrow> bool" where
  "f64_is_zero f = (case f of Fin _ m _ \<Rightarrow> m = 0 | _ \<Rightarrow> False)"

definition is_zero_literal :: "expr \<Rightarrow> bool" where
  "is_zero_literal e =
     (case e of
        Value (Number n _) \<Rightarrow> (case parse_f64 n of Some f \<Rightarrow> f64_is_zero f | None \<Rightarrow> False)
      | _ \<Rightarrow> False)"

definition limit_offset_rewriter :: "query \<Rightarrow> query" where
  "limit_offset_rewriter q =
     (if q_fetch q \<noteq> None then q
      else case limit_clause q of
        Some (LimitOffset (Some l) (Some m) []) \<Rightarrow>
          (if is_zero_literal l then q\<lparr>limit_clause := Some (LimitOffset (Some l) None [])\<rparr>
           else q\<lparr>limit_clause := Some (LimitOffset None (Some m) []),
                  q_fetch := Some \<lparr>with_ties = False, percent = False, quantity = Some l\<rparr>\<rparr>)
      | _ \<Rightarrow> q)"

section \<open>The pass over a statement\<close>

definition rewrite_sql :: "sql_lib \<Rightarrow> str \<Rightarrow> str" where
  "rewrite_sql lib sql =
     (case parse_statements lib sql of
        None \<Rightarrow> sql
      | Some statements \<Rightarrow>
          (case statements of
             [stmt] \<Rightarrow>
               stmt_text lib
                 (visit_queries lib limit_offset_rewriter
                   (visit_exprs lib function_renamer
                     (visit_exprs lib ilike_rewriter
                       (visit_exprs lib cast_rewriter stmt))))
           | _ \<Rightarrow> sql))"

section \<open>The meaning of a row window\<close>



section \<open>The meaning of LIKE\<close>

text \<open>
  Patterns over ASCII text as the two systems document them. A pattern is read into tokens: \<open>%\<close>, \<open>_\<close> and
  literal characters, a literal also after the escape character; a pattern that ends in its escape
  character is an error (\<open>None\<close>). In PostgreSQL any character may follow the escape character, in Trino
  only a wildcard or the escape character itself.
\<close>

datatype like_token = Lit char | One | Many

definition plain_token :: "char \<Rightarrow> like_token" where
  "plain_token c = (if c = CHR ''%'' then Many else if c = CHR ''_'' then One else Lit c)"

fun like_tokens :: "char option \<Rightarrow> str \<Rightarrow> like_token list option" where
  "like_tokens esc [] = Some []"
| "like_tokens esc [c] = (if esc = Some c then None else Some [plain_token c])"
| "like_tokens esc (c # d # cs) =
     (if esc = Some c then map_option ((#) (Lit d)) (like_tokens esc cs)
      else map_option ((#) (plain_token c)) (like_tokens esc (d # cs)))"

fun trino_tokens :: "char option \<Rightarrow> str \<Rightarrow> like_token list option" where
  "trino_tokens esc [] = Some []"
| "trino_tokens esc [c] = (if esc = Some c then None else Some [plain_token c])"
| "trino_tokens esc (c # d # cs) =
     (if esc = Some c
      then (if d = CHR ''%'' \<or> d = CHR ''_'' \<or> esc = Some d then map_option ((#) (Lit d)) (trino_tokens esc cs) else None)
      else map_option ((#) (plain_token c)) (trino_tokens esc (d # cs)))"

text \<open>Every escape character stands before a wildcard or another one.\<close>

fun well_escaped :: "char option \<Rightarrow> str \<Rightarrow> bool" where
  "well_escaped esc [] = True"
| "well_escaped esc [c] = (esc \<noteq> Some c)"
| "well_escaped esc (c # d # cs) =
     (if esc = Some c then (d = CHR ''%'' \<or> d = CHR ''_'' \<or> esc = Some d) \<and> well_escaped esc cs
      else well_escaped esc (d # cs))"

fun tokens_match :: "(char \<Rightarrow> char \<Rightarrow> bool) \<Rightarrow> like_token list \<Rightarrow> str \<Rightarrow> bool" where
  "tokens_match eq [] s = (s = [])"
| "tokens_match eq (Lit c # ts) s = (case s of x # xs \<Rightarrow> eq c x \<and> tokens_match eq ts xs | [] \<Rightarrow> False)"
| "tokens_match eq (One # ts) s = (case s of x # xs \<Rightarrow> tokens_match eq ts xs | [] \<Rightarrow> False)"
| "tokens_match eq (Many # ts) s =
     (tokens_match eq ts s \<or> (case s of x # xs \<Rightarrow> tokens_match eq (Many # ts) xs | [] \<Rightarrow> False))"

definition same_letter :: "char \<Rightarrow> char \<Rightarrow> bool" where
  "same_letter a b \<longleftrightarrow> ascii_lower a = ascii_lower b"

text \<open>
  The escape character of an \<open>ESCAPE\<close> clause, \<open>None\<close> for an error. PostgreSQL escapes with a backslash when
  there is no clause and takes an empty string for no escape character; Trino does not escape by
  default and wants exactly one character.
\<close>

definition pg_escape :: "sql_value option \<Rightarrow> char option option" where
  "pg_escape esc =
     (case esc of
        None \<Rightarrow> Some (Some (CHR 0x5C))
      | Some (SingleQuotedString []) \<Rightarrow> Some None
      | Some (SingleQuotedString [c]) \<Rightarrow> Some (Some c)
      | Some _ \<Rightarrow> None)"

definition trino_escape :: "sql_value option \<Rightarrow> char option option" where
  "trino_escape esc =
     (case esc of
        None \<Rightarrow> Some None
      | Some (SingleQuotedString [c]) \<Rightarrow> Some (Some c)
      | Some _ \<Rightarrow> None)"

text \<open>A predicate node under PostgreSQL's and under Trino's reading; \<open>None\<close> is an error.\<close>

definition pg_predicate :: "(expr \<Rightarrow> str) \<Rightarrow> expr \<Rightarrow> bool option" where
  "pg_predicate ev e =
     (case e of
        ILike ng False x p esc \<Rightarrow>
          Option.bind (pg_escape esc)
            (\<lambda>c. map_option (\<lambda>ts. tokens_match same_letter ts (ev x) \<noteq> ng) (like_tokens c (ev p)))
      | _ \<Rightarrow> None)"

definition trino_predicate :: "(expr \<Rightarrow> str) \<Rightarrow> expr \<Rightarrow> bool option" where
  "trino_predicate ev e =
     (case e of
        Like ng False x p esc \<Rightarrow>
          Option.bind (trino_escape esc)
            (\<lambda>c. map_option (\<lambda>ts. tokens_match (=) ts (ev x) \<noteq> ng) (trino_tokens c (ev p)))
      | _ \<Rightarrow> None)"







lemma well_escaped_None [simp]: "well_escaped None p"
  by (induction "None :: char option" p rule: well_escaped.induct) auto

section \<open>Node lemmas\<close>

lemma normalize_idem: "normalize_data_type (normalize_data_type dt) = normalize_data_type dt"
  by (cases dt) (simp_all add: normalize_data_type_def)

lemma cast_rewriter_idem: "cast_rewriter (cast_rewriter e) = cast_rewriter e"
  by (cases e) (simp_all add: cast_rewriter_def normalize_idem)

lemma ilike_rewriter_idem: "ilike_rewriter (ilike_rewriter e) = ilike_rewriter e"
  by (cases e) (simp_all add: ilike_rewriter_def)

lemma renamed_lower:
  "to_lowercase ''listagg'' = ''listagg''" "to_lowercase ''log10'' = ''log10''" "to_lowercase ''truncate'' = ''truncate''"
  by code_simp+

lemma function_renamer_idem: "function_renamer (function_renamer e) = function_renamer e"
proof (cases "function_renamer e = e")
  case False
  then obtain i params args extra name where e: "e = Function (Func [PartIdentifier i] params args extra)"
    and n: "trino_function_name (to_lowercase (id_value i)) (arg_count args) = Some name"
    by (auto simp: function_renamer_def split: expr.splits func.splits list.splits object_name_part.splits option.splits)
  from n have "name \<in> {''listagg'', ''log10'', ''truncate''}" by (auto simp: trino_function_name_def split: if_splits)
  then have "trino_function_name (to_lowercase name) (arg_count args) = None"
    by (auto simp: trino_function_name_def renamed_lower)
  with e n show ?thesis by (simp add: function_renamer_def)
qed simp

lemma function_renamer_done:
  assumes "function_renamer e = Function (Func [PartIdentifier i] ps args n)"
  shows "trino_function_name (to_lowercase (id_value i)) (arg_count args) = None"
proof (rule ccontr)
  assume "trino_function_name (to_lowercase (id_value i)) (arg_count args) \<noteq> None"
  then obtain name where nm: "trino_function_name (to_lowercase (id_value i)) (arg_count args) = Some name" by blast
  with assms function_renamer_idem [of e] have "i\<lparr>id_value := name\<rparr> = i" by (simp add: function_renamer_def)
  then have "id_value i = name" by (metis ident.select_convs(1) ident.surjective ident.update_convs(1))
  moreover from nm have "name \<in> {''listagg'', ''log10'', ''truncate''}" by (auto simp: trino_function_name_def split: if_splits)
  ultimately have "trino_function_name (to_lowercase (id_value i)) (arg_count args) = None"
    by (auto simp: trino_function_name_def renamed_lower)
  with nm show False by simp
qed

section \<open>Properties\<close>







text \<open>An evaluation of literals and of calls of \<open>lower\<close> on them.\<close>

fun text_of :: "expr \<Rightarrow> str" where
  "text_of (Value (SingleQuotedString s)) = s"
| "text_of (Function (Func [PartIdentifier i] ps (ArgsList [Unnamed (FaExpr e)] n) k)) = map ascii_lower (text_of e)"
| "text_of _ = []"



text \<open>An upper-case escape letter is lowered in the pattern but not in the \<open>ESCAPE\<close> clause, so the escaped
  percent sign becomes a wildcard.\<close>

theorem ilike_upper_escape_changes_meaning:
  "pg_predicate text_of (ILike False False (Value (SingleQuotedString ''5x0'')) (Value (SingleQuotedString ''5X%'')) (Some (SingleQuotedString ''X'')))
     = Some False
   \<and> trino_predicate text_of (ilike_rewriter (ILike False False (Value (SingleQuotedString ''5x0''))
        (Value (SingleQuotedString ''5X%'')) (Some (SingleQuotedString ''X'')))) = Some True"
proof -
  have "pg_predicate text_of (ILike False False (Value (SingleQuotedString ''5x0'')) (Value (SingleQuotedString ''5X%'')) (Some (SingleQuotedString ''X'')))
     = Some False" by code_simp
  moreover have "trino_predicate text_of (ilike_rewriter (ILike False False (Value (SingleQuotedString ''5x0''))
        (Value (SingleQuotedString ''5X%'')) (Some (SingleQuotedString ''X'')))) = Some True" by code_simp
  ultimately show ?thesis by blast
qed

text \<open>Without an \<open>ESCAPE\<close> clause PostgreSQL reads a backslash as the escape character and Trino as itself, so
  an escaped percent sign no longer matches the percent sign.\<close>

theorem ilike_default_escape_lost:
  "pg_predicate text_of (ILike False False (Value (SingleQuotedString ''5%'')) (Value (SingleQuotedString [CHR ''5'', CHR 0x5C, CHR ''%''])) None)
     = Some True
   \<and> trino_predicate text_of (ilike_rewriter (ILike False False (Value (SingleQuotedString ''5%''))
        (Value (SingleQuotedString [CHR ''5'', CHR 0x5C, CHR ''%''])) None)) = Some False"
proof (rule conjI)
  show "pg_predicate text_of (ILike False False (Value (SingleQuotedString ''5%'')) (Value (SingleQuotedString [CHR ''5'', CHR 0x5C, CHR ''%''])) None)
     = Some True" by code_simp
  show "trino_predicate text_of (ilike_rewriter (ILike False False (Value (SingleQuotedString ''5%''))
        (Value (SingleQuotedString [CHR ''5'', CHR 0x5C, CHR ''%''])) None)) = Some False" by code_simp
qed

end
