(* ===== verification/Error_Mapping.thy ===== *)
theory Error_Mapping
  imports Gateway_Prelude
begin

text \<open>
  Model of \<^verbatim>\<open>src/error_mapping.rs\<close>: the SQLSTATE classification of a Trino error message and the
  sanitisation of the text that goes back to the client (stack traces, exception class names and URL
  hosts removed, length capped). The lemmas bound the result, show that it stays valid UTF-8 and that
  the stack-trace marker and the hosts of \<^verbatim>\<open>https\<close> URLs never reach the client.
\<close>

section \<open>Definitions\<close>

definition MAX_CLIENT_ERROR_LEN :: nat where
  "MAX_CLIENT_ERROR_LEN = 512"

text \<open>The UTF-8 bytes of the ellipsis character.\<close>

definition ellipsis :: str where
  "ellipsis = [CHR 0xE2, CHR 0x80, CHR 0xA6]"

text \<open>The loop \<^verbatim>\<open>while cut > 0 && !s.is_char_boundary(cut) { cut -= 1 }\<close>.\<close>

fun back_to_boundary :: "str \<Rightarrow> nat \<Rightarrow> nat" where
  "back_to_boundary s 0 = 0"
| "back_to_boundary s (Suc k) =
     (if is_char_boundary s (Suc k) then Suc k else back_to_boundary s k)"

definition truncate_with_ellipsis :: "str \<Rightarrow> nat \<Rightarrow> str" where
  "truncate_with_ellipsis s mx =
     (if length s \<le> mx then s
      else take (back_to_boundary s (mx - 3)) s @ ellipsis)"

definition strip_java_exception_prefix :: "str \<Rightarrow> str" where
  "strip_java_exception_prefix s =
     (case find_sub '': '' s of
        None \<Rightarrow> s
      | Some colon \<Rightarrow>
          let pre = take colon s;
              looks_like_package =
                starts_with pre ''io.'' \<or> starts_with pre ''com.'' \<or>
                starts_with pre ''java.'' \<or> starts_with pre ''org.'';
              looks_like_exception = ends_with pre ''Exception'' \<or> ends_with pre ''Error''
          in if looks_like_package \<and> looks_like_exception
             then trim_start (drop (colon + 2) s) else s)"

lemma trim_start_length: "length (trim_start s) \<le> length s"
  using trim_start_suffix [of s] by (rule suffix_length_le)

lemma strip_java_exception_prefix_suffix: "suffix (strip_java_exception_prefix s) s"
proof -
  have "suffix (trim_start (drop n s)) s" for n
    using trim_start_suffix [of "drop n s"] suffix_drop [of n s] suffix_order.trans by blast
  then show ?thesis
    by (simp add: strip_java_exception_prefix_def Let_def split: option.split)
qed

text \<open>
  The loop of \<^verbatim>\<open>sanitise_for_client\<close> stops when the helper returns the same slice
  (\<^verbatim>\<open>std::ptr::eq\<close>). The helper always returns a suffix of its argument, so the slices are the
  same exactly when the strings are equal.
\<close>

function strip_all_prefixes :: "str \<Rightarrow> str" where
  "strip_all_prefixes s =
     (let n = strip_java_exception_prefix s in if n = s then s else strip_all_prefixes n)"
  by pat_completeness auto
termination
proof (relation "measure length")
  fix s n assume "n = strip_java_exception_prefix s" and "n \<noteq> s"
  then show "(n, s) \<in> measure length"
    using strip_java_exception_prefix_suffix [of s] suffix_length_less [of n s]
    by (simp add: strict_suffix_def)
qed simp

declare strip_all_prefixes.simps [simp del]

text \<open>The closure of \<^verbatim>\<open>mask_url_hosts\<close>: slash, closing parenthesis, comma or white space.\<close>

fun host_end :: "str \<Rightarrow> nat" where
  "host_end [] = 0"
| "host_end (c # cs) =
     (if c = CHR ''/'' \<or> c = CHR '')'' \<or> c = CHR '','' \<or> ws_len (c # cs) \<noteq> 0 then 0
      else Suc (host_end cs))"

definition first_scheme :: "str \<Rightarrow> (str \<times> nat) option" where
  "first_scheme rest =
     (case find_sub ''https://'' rest of
        Some idx \<Rightarrow> Some (''https://'', idx)
      | None \<Rightarrow>
          (case find_sub ''http://'' rest of
             Some idx \<Rightarrow> Some (''http://'', idx)
           | None \<Rightarrow> None))"

function mask_url_hosts :: "str \<Rightarrow> str" where
  "mask_url_hosts rest =
     (if rest = [] then []
      else case first_scheme rest of
             Some (scheme, idx) \<Rightarrow>
               let after = drop (idx + length scheme) rest
               in take idx rest @ scheme @ ''<trino>'' @ mask_url_hosts (drop (host_end after) after)
           | None \<Rightarrow> rest)"
  by pat_completeness auto
termination
  by (relation "measure length") (auto simp: first_scheme_def split: option.splits)

declare mask_url_hosts.simps [simp del]

text \<open>The two spellings of the first line of a Java stack trace.\<close>

definition trace_marker :: str where
  "trace_marker = [CHR 0x0A, CHR 0x09] @ ''at ''"

definition trace_marker_spaces :: str where
  "trace_marker_spaces = CHR 0x0A # ''  at ''"

definition cut_stack_trace :: "str \<Rightarrow> str" where
  "cut_stack_trace msg =
     (case find_sub trace_marker msg of
        Some idx \<Rightarrow> take idx msg
      | None \<Rightarrow>
          (case find_sub trace_marker_spaces msg of
             Some idx \<Rightarrow> take idx msg
           | None \<Rightarrow> msg))"

definition sanitise_for_client :: "str \<Rightarrow> str" where
  "sanitise_for_client msg =
     truncate_with_ellipsis
       (trim (mask_url_hosts (strip_all_prefixes (cut_stack_trace msg)))) MAX_CLIENT_ERROR_LEN"

definition is_syntax_position :: "str \<Rightarrow> bool" where
  "is_syntax_position upper \<longleftrightarrow>
     starts_with upper ''LINE '' \<and>
     (case find_char (CHR '':'') upper of
        Some first \<Rightarrow> find_char (CHR '':'') (drop (first + 1) upper) \<noteq> None
      | None \<Rightarrow> False)"

definition trino_sqlstate :: "str \<Rightarrow> str" where
  "trino_sqlstate error_msg =
     (let upper = to_ascii_uppercase error_msg in
      if contains upper ''SYNTAX_ERROR'' \<or> is_syntax_position upper then ''42601''
      else if contains upper ''TABLE_NOT_FOUND'' \<or> contains upper ''DOES NOT EXIST'' then ''42P01''
      else if contains upper ''COLUMN_NOT_FOUND'' \<or> contains upper ''CANNOT BE RESOLVED'' then ''42703''
      else if contains upper ''TYPE_MISMATCH'' then ''42846''
      else if contains upper ''PERMISSION_DENIED'' \<or> contains upper ''ACCESS DENIED'' then ''42501''
      else if contains upper ''DIVISION_BY_ZERO'' then ''22012''
      else ''42000'')"

definition trino_error_to_pg :: "str \<Rightarrow> error_info" where
  "trino_error_to_pg error_msg =
     \<lparr>severity = ''ERROR'', code = trino_sqlstate error_msg,
      message = sanitise_for_client error_msg\<rparr>"

text \<open>
  Specification: a host is over at the end of the text, at a slash, a closing parenthesis, a comma or white
  space; every occurrence of the scheme in the masked text is followed by the mask and nothing else of
  a host.
\<close>

definition host_stop :: "str \<Rightarrow> bool" where
  "host_stop s \<longleftrightarrow> s = [] \<or> hd s = CHR ''/'' \<or> hd s = CHR '')'' \<or> hd s = CHR '','' \<or> ws_len s \<noteq> 0"

definition masked_at :: "str \<Rightarrow> str \<Rightarrow> bool" where
  "masked_at scheme s \<longleftrightarrow> prefix (scheme @ ''<trino>'') s \<and> host_stop (drop (length (scheme @ ''<trino>'')) s)"

fun scheme_masked :: "str \<Rightarrow> str \<Rightarrow> bool" where
  "scheme_masked scheme [] = True"
| "scheme_masked scheme (c # cs) =
     ((prefix scheme (c # cs) \<longrightarrow> masked_at scheme (c # cs)) \<and> scheme_masked scheme cs)"

text \<open>A host in front of a rest: it is not over before the rest begins, and there it is.\<close>

fun host_before :: "str \<Rightarrow> str \<Rightarrow> bool" where
  "host_before [] r \<longleftrightarrow> host_stop r"
| "host_before (c # h) r \<longleftrightarrow> \<not> host_stop (c # h @ r) \<and> host_before h r"

section \<open>Truncation\<close>

lemma back_to_boundary_le: "back_to_boundary s n \<le> n"
  by (induction n) auto

lemma back_to_boundary_boundary: "is_char_boundary s (back_to_boundary s n)"
  by (induction n) (auto simp: is_char_boundary_def)

lemma truncate_length: "3 \<le> mx \<Longrightarrow> length (truncate_with_ellipsis s mx) \<le> mx"
  using back_to_boundary_le [of s "mx - 3"]
  by (auto simp: truncate_with_ellipsis_def ellipsis_def)

lemma truncate_utf8: "utf8 s \<Longrightarrow> utf8 (truncate_with_ellipsis s mx)"
proof -
  assume s: "utf8 s"
  have "utf8 (take (back_to_boundary s (mx - 3)) s)"
    by (rule is_char_boundary_utf8 [OF s back_to_boundary_boundary])
  moreover have "utf8 ellipsis" by code_simp
  ultimately show ?thesis
    using s by (simp add: truncate_with_ellipsis_def utf8_append)
qed

section \<open>Masking\<close>

lemma scheme_masked_append:
  assumes "\<And>j. j < length a \<Longrightarrow> prefix scheme (drop j a @ b) \<Longrightarrow> masked_at scheme (drop j a @ b)"
    and "scheme_masked scheme b"
  shows "scheme_masked scheme (a @ b)"
  using assms
proof (induction a)
  case Nil
  then show ?case by simp
next
  case (Cons c a)
  have "scheme_masked scheme (a @ b)"
  proof (rule Cons.IH)
    fix j assume "j < length a" "prefix scheme (drop j a @ b)"
    then show "masked_at scheme (drop j a @ b)" using Cons.prems(1) [of "Suc j"] by simp
  qed (rule Cons.prems(2))
  with Cons.prems(1) [of 0] show ?case by simp
qed

lemma scheme_masked_none: "\<not> sublist scheme s \<Longrightarrow> scheme_masked scheme s"
  by (induction s) (auto simp: sublist_Cons_right)

text \<open>
  The two masking steps. \<open>sch\<close> is the scheme being masked, \<open>t\<close> the scheme searched for in the output,
  no occurrence of which starts before the masked URL.
\<close>

lemma scheme_masked_step:
  assumes no: "\<And>j. j < length a \<Longrightarrow> \<not> prefix t (drop j (a @ sch))"
    and len: "length t \<le> Suc (length sch)" and t: "t \<noteq> []"
    and h: "hd t \<notin> set (tl (sch @ ''<trino>''))"
    and same: "prefix t (sch @ ''<trino>'' @ m) \<Longrightarrow> sch = t"
    and sch: "sch \<noteq> []"
    and m: "scheme_masked t m" and stop: "host_stop m"
  shows "scheme_masked t (a @ sch @ ''<trino>'' @ m)"
proof (rule scheme_masked_append)
  fix j assume j: "j < length a" and p: "prefix t (drop j a @ sch @ ''<trino>'' @ m)"
  have "length t \<le> length (drop j a @ sch)" using j len by simp
  with p have "prefix t (drop j a @ sch)"
    by (metis append_assoc prefix_append prefix_length_le prefix_length_prefix prefixI)
  with no [OF j] j show "masked_at t (drop j a @ sch @ ''<trino>'' @ m)" by simp
next
  have tail: "scheme_masked t (tl (sch @ ''<trino>'') @ m)"
  proof (rule scheme_masked_append)
    fix j assume j: "j < length (tl (sch @ ''<trino>''))"
      and p: "prefix t (drop j (tl (sch @ ''<trino>'')) @ m)"
    from j obtain x xs where x: "drop j (tl (sch @ ''<trino>'')) = x # xs"
      by (metis Cons_nth_drop_Suc)
    then have "x \<in> set (tl (sch @ ''<trino>''))" by (metis in_set_dropD list.set_intros(1))
    with h p x t show "masked_at t (drop j (tl (sch @ ''<trino>'')) @ m)"
      by (cases t) auto
  qed (rule m)
  obtain x xs where sx: "sch = x # xs" using sch by (cases sch) auto
  have "prefix t (sch @ ''<trino>'' @ m) \<Longrightarrow> masked_at t (sch @ ''<trino>'' @ m)"
    using same stop by (simp add: masked_at_def)
  with tail show "scheme_masked t (sch @ ''<trino>'' @ m)" by (simp add: sx)
qed


lemma first_scheme_SomeD:
  assumes "first_scheme s = Some (sch, idx)"
  shows "s \<noteq> []" and "find_sub sch s = Some idx"
    and "sch = ''https://'' \<or> sch = ''http://'' \<and> \<not> sublist ''https://'' s"
  using assms by (auto simp: first_scheme_def find_sub_None_iff split: option.splits)

lemma first_scheme_NoneD:
  assumes "first_scheme s = None"
  shows "\<not> sublist ''https://'' s" and "\<not> sublist ''http://'' s"
  using assms by (auto simp: first_scheme_def find_sub_None_iff split: option.splits)

lemma host_end_stop: "host_stop (drop (host_end s) s)"
  by (induction s rule: host_end.induct) (auto simp: host_stop_def)

lemma host_end_before: "host_before h r \<Longrightarrow> host_end (h @ r) = length h"
proof (induction h)
  case Nil
  then show ?case by (cases r) (auto simp: host_stop_def)
qed (auto simp: host_stop_def)

lemma mask_first:
  assumes "first_scheme (a @ sch @ h @ r) = Some (sch, length a)" and "host_before h r"
  shows "mask_url_hosts (a @ sch @ h @ r) = a @ sch @ ''<trino>'' @ mask_url_hosts r"
proof -
  have "a @ sch @ h @ r \<noteq> []" using first_scheme_SomeD(1) [OF assms(1)] .
  moreover have "drop (length a + length sch) (a @ sch @ h @ r) = h @ r" by simp
  ultimately show ?thesis
    using assms(1) host_end_before [OF assms(2)] by (simp add: mask_url_hosts.simps [of "a @ sch @ h @ r"] Let_def)
qed

lemma ws_len_multi:
  assumes "w \<in> set ws_multi" and "take (length w) s = bytes w"
  shows "ws_len s \<noteq> 0"
proof -
  have w: "w \<noteq> []" "length w \<le> 3" "list_all (\<lambda>b. 128 \<le> b \<and> b < 256) w" using assms(1) ws_multi_bytes by (auto simp: list_all_iff)
  then have "map byte (bytes w) = w" by (intro map_byte_bytes) (simp add: list_all_iff)
  then have b: "map byte (take (length w) s) = w" using assms(2) by simp
  moreover have "prefix (map byte (take (length w) s)) (map byte (take 3 s))"
    using w(2) by (metis map_mono_prefix min.absorb1 take_is_prefix take_take)
  ultimately have "List.find (\<lambda>w. prefix w (map byte (take 3 s))) ws_multi \<noteq> None"
    using assms(1) by (auto simp: find_None_iff)
  then obtain v where v: "List.find (\<lambda>w. prefix w (map byte (take 3 s))) ws_multi = Some v" by blast
  then have "v \<noteq> []" using find_SomeD [OF v] ws_multi_bytes by (auto simp: list_all_iff)
  moreover obtain c cs where s: "s = c # cs" using b w(1) by (cases s) auto
  moreover have "128 \<le> byte c" using b w s by (cases w) auto
  ultimately show ?thesis using v by (simp add: ws_len_def ws_len_of_def)
qed

text \<open>Masking leaves the character that ended a host alone.\<close>

lemma stop_kept:
  assumes "host_stop s" and "idx < length s" and "s ! idx = CHR ''h''"
  shows "host_stop (take idx s @ m)"
proof -
  obtain c cs where s: "s = c # cs" using assms(2) by (cases s) auto
  have pos: "0 < idx" if "c \<noteq> CHR ''h''" using that assms(3) s by (cases idx) auto
  consider "c \<in> set ''/),''" | "ws_len s \<noteq> 0" using assms(1) s by (auto simp: host_stop_def)
  then show ?thesis
  proof cases
    case 1
    then show ?thesis using pos s by (cases idx) (auto simp: host_stop_def)
  next
    case 2
    then have "0 < ws_len_of ws_multi s" by (simp add: ws_len_def)
    then show ?thesis
    proof (cases rule: ws_len_of_pos)
      case (ascii d ds)
      with 2 s have "ws_ascii c" by (auto simp: ws_len_def ws_len_of_def split: if_splits)
      moreover from this have "c \<noteq> CHR ''h''" by (auto simp: ws_ascii_def)
      ultimately show ?thesis using pos s by (cases idx) (auto simp: host_stop_def ws_len_def ws_len_of_def)
    next
      case (multi w)
      have "list_all (\<lambda>b. 128 \<le> b \<and> b < 256) w" using multi(1) ws_multi_bytes by (auto simp: list_all_iff)
      note w = this
      then have b: "map byte (take (length w) s) = w" using multi(2) map_byte_bytes [of w] by (simp add: list_all_iff)
      have "length w \<le> idx"
      proof (rule ccontr)
        assume "\<not> length w \<le> idx"
        then have k: "idx < length w" by simp
        then have "w ! idx = byte (s ! idx)" using arg_cong [OF b, of "\<lambda>x. x ! idx"] assms(2) by simp
        then have "w ! idx < 128" using assms(3) by simp
        moreover have "128 \<le> w ! idx" using w k by (simp add: list_all_length)
        ultimately show False by simp
      qed
      then have "take (length w) (take idx s @ m) = bytes w" using multi(2) assms(2) by simp
      then show ?thesis using ws_len_multi [OF multi(1)] by (simp add: host_stop_def)
    qed
  qed
qed

lemma mask_host_stop:
  assumes "host_stop s"
  shows "host_stop (mask_url_hosts s)"
proof (cases "first_scheme s")
  case None
  with assms show ?thesis by (cases "s = []") (simp_all add: mask_url_hosts.simps [of s] mask_url_hosts.simps [of "[]"])
next
  case (Some q)
  then obtain sch idx where p: "first_scheme s = Some (sch, idx)" by (cases q) auto
  note f = first_scheme_SomeD [OF p]
  obtain m where m: "mask_url_hosts s = take idx s @ m" using f(1) p by (simp add: mask_url_hosts.simps [of s] Let_def)
  have "prefix sch (drop idx s)" using find_sub_SomeD(2) [OF f(2)] .
  then obtain r where "drop idx s = CHR ''h'' # r" using f(3) by (auto simp: prefix_def)
  then have "idx < length s" "s ! idx = CHR ''h''"
    by (metis drop_all list.distinct(1) not_le) (metis \<open>drop idx s = CHR ''h'' # r\<close> drop_all hd_drop_conv_nth list.distinct(1) list.sel(1) not_le)
  from stop_kept [OF assms this] m show ?thesis by simp
qed

lemma mask_scheme:
  "t = ''https://'' \<or> t = ''http://'' \<and> \<not> sublist ''https://'' s \<Longrightarrow>
   scheme_masked t (mask_url_hosts s)"
proof (induction s rule: mask_url_hosts.induct)
  case (1 s)
  show ?case
  proof (cases "first_scheme s")
    case None
    with first_scheme_NoneD [OF None] "1.prems" show ?thesis
      by (auto simp: mask_url_hosts.simps [of s] intro: scheme_masked_none)
  next
    case (Some p)
    then obtain sch idx where p: "first_scheme s = Some (sch, idx)" by (cases p) auto
    note f = first_scheme_SomeD [OF p]
    define after where "after = drop (idx + length sch) s"
    define m where "m = mask_url_hosts (drop (host_end after) after)"
    have IH: "scheme_masked t m"
      using "1.IH" [OF f(1) p refl after_def] "1.prems" not_sublist_drop
      unfolding m_def after_def by blast
    have stop: "host_stop m" unfolding m_def by (rule mask_host_stop [OF host_end_stop])
    have "scheme_masked t (take idx s @ sch @ ''<trino>'' @ m)"
    proof (rule scheme_masked_step [OF _ _ _ _ _ _ IH stop])
      fix j assume j: "j < length (take idx s)"
      have "prefix (take idx s @ sch) s" using find_sub_split [OF f(2)] by (metis append_assoc prefixI)
      then have "prefix (drop j (take idx s @ sch)) (drop j s)" by (rule prefix_drop_mono)
      moreover have "\<not> prefix t (drop j s)"
      proof (cases "t = sch")
        case True
        with find_sub_SomeD(3) [OF f(2)] j show ?thesis by simp
      next
        case False
        then have "\<not> sublist t s"
          using "1.prems" f(3) find_sub_None_iff [of sch s] f(2) by auto
        then show ?thesis by (rule not_prefix_drop)
      qed
      ultimately show "\<not> prefix t (drop j (take idx s @ sch))"
        using prefix_order.trans by blast
    qed (use f(3) "1.prems" in auto)
    then show ?thesis
      using f(1) p by (simp add: mask_url_hosts.simps [of s] Let_def m_def after_def)
  qed
qed

section \<open>The stack-trace marker does not reach the client\<close>

lemma mask_no_marker: "\<not> sublist trace_marker s \<Longrightarrow> \<not> sublist trace_marker (mask_url_hosts s)"
proof (induction s rule: mask_url_hosts.induct)
  case (1 s)
  show ?case
  proof (cases "first_scheme s")
    case None
    with "1.prems" show ?thesis by (cases "s = []") (simp_all add: mask_url_hosts.simps)
  next
    case (Some p)
    then obtain sch idx where p: "first_scheme s = Some (sch, idx)" by (cases p) auto
    note f = first_scheme_SomeD [OF p]
    define after where "after = drop (idx + length sch) s"
    define m where "m = mask_url_hosts (drop (host_end after) after)"
    have IH: "\<not> sublist trace_marker m"
      using "1.IH" [OF f(1) p refl after_def] "1.prems" not_sublist_drop
      unfolding m_def after_def by blast
    have a: "\<not> sublist trace_marker (take idx s)"
      using "1.prems" by (meson sublist_take sublist_order.order.trans)
    have tail: "\<not> sublist trace_marker (x @ CHR ''>'' # m)" if "\<not> sublist trace_marker x" for x
      by (rule not_sublist_sep [OF _ that IH]) (simp add: trace_marker_def)
    have "\<not> contains ''ttp://<trino'' trace_marker" "\<not> contains ''ttps://<trino'' trace_marker"
      by code_simp+
    then have mid: "\<not> sublist trace_marker (tl sch @ ''<trino'')"
      using f(3) by (auto simp: contains_iff_sublist)
    have "\<not> sublist trace_marker (take idx s @ CHR ''h'' # ((tl sch @ ''<trino'') @ CHR ''>'' # m))"
      by (rule not_sublist_sep [OF _ a tail [OF mid]]) (simp add: trace_marker_def)
    then show ?thesis
      using f(1,3) p by (auto simp: mask_url_hosts.simps [of s] Let_def m_def after_def)
  qed
qed

lemma strip_all_prefixes_suffix: "suffix (strip_all_prefixes s) s"
proof (induction s rule: strip_all_prefixes.induct)
  case (1 s)
  show ?case
  proof (cases "strip_java_exception_prefix s = s")
    case True
    then show ?thesis by (simp add: strip_all_prefixes.simps [of s])
  next
    case False
    with "1.IH" [OF refl False] strip_java_exception_prefix_suffix [of s] suffix_order.trans
    show ?thesis by (auto simp: strip_all_prefixes.simps [of s] Let_def)
  qed
qed

lemma cut_stack_trace_no_marker: "\<not> sublist trace_marker (cut_stack_trace msg)"
proof (cases "find_sub trace_marker msg")
  case None
  then have n: "\<not> sublist trace_marker msg" by (simp add: find_sub_None_iff)
  then have "\<not> sublist trace_marker (take i msg)" for i
    by (meson sublist_take sublist_order.order.trans)
  with None n show ?thesis
    by (auto simp: cut_stack_trace_def split: option.split)
next
  case (Some i)
  have "trace_marker \<noteq> []" by (simp add: trace_marker_def)
  from find_sub_first [OF Some this] Some show ?thesis
    by (simp add: cut_stack_trace_def)
qed

lemma truncate_no_marker:
  assumes "\<not> sublist trace_marker s"
  shows "\<not> sublist trace_marker (truncate_with_ellipsis s mx)"
proof -
  have "\<not> sublist trace_marker (take n s)" for n
    using assms by (meson sublist_take sublist_order.order.trans)
  moreover have "\<not> contains (tl ellipsis) trace_marker" by code_simp
  ultimately have "\<not> sublist trace_marker (take n s @ CHR 0xE2 # tl ellipsis)" for n
    by (intro not_sublist_sep) (simp_all add: contains_iff_sublist trace_marker_def)
  with assms show ?thesis by (simp add: truncate_with_ellipsis_def ellipsis_def)
qed

lemma sanitise_no_marker: "\<not> sublist trace_marker (sanitise_for_client msg)"
  unfolding sanitise_for_client_def
  by (rule truncate_no_marker)
     (meson mask_no_marker cut_stack_trace_no_marker strip_all_prefixes_suffix suffix_imp_sublist
        sublist_order.order.trans trim_sublist)


section \<open>The sanitised text is valid UTF-8\<close>

lemma host_end_boundary: "drop (host_end s) s = [] \<or> \<not> is_cont (hd (drop (host_end s) s))"
proof (induction s)
  case (Cons c cs)
  then show ?case using ws_len_not_cont [of "c # cs"] by (auto simp: ascii_not_cont)
qed simp

lemma mask_utf8: "utf8 s \<Longrightarrow> utf8 (mask_url_hosts s)"
proof (induction s rule: mask_url_hosts.induct)
  case (1 s)
  show ?case
  proof (cases "first_scheme s")
    case None
    with "1.prems" show ?thesis by (cases "s = []") (simp_all add: mask_url_hosts.simps)
  next
    case (Some p)
    then obtain sch idx where p: "first_scheme s = Some (sch, idx)" by (cases p) auto
    note f = first_scheme_SomeD [OF p]
    define after where "after = drop (idx + length sch) s"
    have sch: "is_ascii sch" "sch \<noteq> []" using f(3) by (auto simp: is_ascii_def)
    have a: "utf8 (take idx s)" and b: "utf8 after"
      unfolding after_def using utf8_find [OF "1.prems" f(2) sch] by auto
    have "utf8 (take (host_end after) after @ drop (host_end after) after)" using b by simp
    then have "utf8 (drop (host_end after) after)" using utf8_split host_end_boundary by blast
    then have IH: "utf8 (mask_url_hosts (drop (host_end after) after))"
      by (rule "1.IH" [OF f(1) p refl after_def])
    have "utf8 (sch @ ''<trino>'')" using sch by (intro utf8_ascii) (simp add: is_ascii_def)
    with a IH have "utf8 (take idx s @ (sch @ ''<trino>'') @ mask_url_hosts (drop (host_end after) after))"
      by (simp add: utf8_append del: append_assoc)
    then show ?thesis using f(1) p by (simp add: mask_url_hosts.simps [of s] Let_def after_def)
  qed
qed

lemma strip_prefix_utf8: "utf8 s \<Longrightarrow> utf8 (strip_java_exception_prefix s)"
proof (cases "find_sub '': '' s")
  case (Some colon)
  assume "utf8 s"
  from utf8_find(2) [OF this Some] have "utf8 (drop (colon + 2) s)" by (simp add: is_ascii_def)
  with \<open>utf8 s\<close> trim_start_utf8 Some show ?thesis
    by (simp add: strip_java_exception_prefix_def Let_def)
qed (simp add: strip_java_exception_prefix_def)

lemma strip_all_prefixes_utf8: "utf8 s \<Longrightarrow> utf8 (strip_all_prefixes s)"
proof (induction s rule: strip_all_prefixes.induct)
  case (1 s)
  then show ?case
    using strip_prefix_utf8 by (subst strip_all_prefixes.simps) (simp add: Let_def)
qed

lemma cut_stack_trace_utf8: "utf8 msg \<Longrightarrow> utf8 (cut_stack_trace msg)"
  using utf8_find(1) [of msg trace_marker] utf8_find(1) [of msg trace_marker_spaces]
  by (auto simp: cut_stack_trace_def is_ascii_def trace_marker_def trace_marker_spaces_def split: option.split)

lemma sanitise_utf8: "utf8 msg \<Longrightarrow> utf8 (sanitise_for_client msg)"
  unfolding sanitise_for_client_def
  by (intro truncate_utf8 utf8_trim mask_utf8 strip_all_prefixes_utf8 cut_stack_trace_utf8)

section \<open>Properties\<close>

text \<open>C29. The message returned to the client never exceeds 512 bytes and is valid UTF-8 whenever the
  Trino message is: the byte cap never splits a character.\<close>

theorem client_message_bounded_utf8:
  assumes "utf8 error_msg"
  shows "length (message (trino_error_to_pg error_msg)) \<le> MAX_CLIENT_ERROR_LEN
       \<and> utf8 (message (trino_error_to_pg error_msg))"
  using sanitise_utf8 [OF assms] truncate_length [of MAX_CLIENT_ERROR_LEN]
  by (simp add: trino_error_to_pg_def sanitise_for_client_def MAX_CLIENT_ERROR_LEN_def)

theorem client_message_bounded_utf8_witness:
  "length (message (trino_error_to_pg (''Error: '' @ [CHR 0xC3, CHR 0xA4]))) \<le> MAX_CLIENT_ERROR_LEN
   \<and> utf8 (message (trino_error_to_pg (''Error: '' @ [CHR 0xC3, CHR 0xA4])))"
  by (rule client_message_bounded_utf8) code_simp

text \<open>C30. No Java stack trace introduced by a tab-indented frame reaches the client: the marker
  (newline, tab, \<open>at\<close>, blank) does not occur in the returned message, for any Trino message.\<close>

theorem client_message_no_stack_trace:
  "\<not> contains (message (trino_error_to_pg error_msg)) trace_marker"
  using sanitise_no_marker by (simp add: trino_error_to_pg_def contains_iff_sublist)

text \<open>C31. URL masking. In the masked text every \<^verbatim>\<open>https://\<close> is followed by the mask and then by the end of the
  host (the end of the text, a slash, a closing parenthesis, a comma or white space), and when the input
  has no \<^verbatim>\<open>https://\<close> URL the same holds for \<^verbatim>\<open>http://\<close>; the mask stands in the place of the host and nothing
  else is changed: up to the first \<^verbatim>\<open>https://\<close>, and from the end of its host on, the text is kept, masked
  further, and a text without a URL is left alone.\<close>

theorem url_hosts_masked:
  "scheme_masked ''https://'' (mask_url_hosts s)
   \<and> (\<not> contains s ''https://'' \<longrightarrow> scheme_masked ''http://'' (mask_url_hosts s))
   \<and> (\<not> contains (a @ ''https:/'') ''https://'' \<and> host_before h r \<longrightarrow>
        mask_url_hosts (a @ ''https://'' @ h @ r) = a @ ''https://<trino>'' @ mask_url_hosts r)
   \<and> (\<not> contains s ''https://'' \<and> \<not> contains s ''http://'' \<longrightarrow> mask_url_hosts s = s)"
proof -
  have "mask_url_hosts (a @ ''https://'' @ h @ r) = a @ ''https://<trino>'' @ mask_url_hosts r"
    if "\<not> contains (a @ ''https:/'') ''https://''" "host_before h r"
  proof -
    have "find_sub ''https://'' (a @ ''https://'' @ h @ r) = Some (length a)"
      using that(1) by (intro find_sub_append) (simp_all add: contains_iff_sublist)
    then have "first_scheme (a @ ''https://'' @ h @ r) = Some (''https://'', length a)" by (simp add: first_scheme_def)
    from mask_first [OF this that(2)] show ?thesis by simp
  qed
  moreover have "mask_url_hosts s = s" if "\<not> contains s ''https://''" "\<not> contains s ''http://''"
    using that by (simp add: mask_url_hosts.simps [of s] first_scheme_def contains_def)
  ultimately show ?thesis
    using mask_scheme [of "''https://''" s] mask_scheme [of "''http://''" s] by (simp add: contains_iff_sublist)
qed

theorem url_hosts_masked_witness:
  "\<not> contains ''see http://db1:8080/x, http://db2/y'' ''https://''
   \<and> scheme_masked ''http://'' (mask_url_hosts ''see http://db1:8080/x, http://db2/y'')
   \<and> mask_url_hosts ''see https://db1.internal:8443/x'' = ''see https://<trino>/x''"
proof -
  have h: "\<not> contains ''see http://db1:8080/x, http://db2/y'' ''https://''" by code_simp
  have "\<not> contains (''see '' @ ''https:/'') ''https://''" "host_before ''db1.internal:8443'' ''/x''" "mask_url_hosts ''/x'' = ''/x''"
    by code_simp+
  with h url_hosts_masked [of "''see http://db1:8080/x, http://db2/y''" "''see ''" "''db1.internal:8443''" "''/x''"] show ?thesis
    by simp
qed

text \<open>The masking loop searches \<^verbatim>\<open>https://\<close> first, over the whole rest of the text: an \<^verbatim>\<open>http://\<close>
  URL that stands before an \<^verbatim>\<open>https://\<close> URL is copied with its host.\<close>

theorem http_before_https_leaks_host:
  "mask_url_hosts ''http://db1.internal/x then https://db2/y''
   = ''http://db1.internal/x then https://<trino>/y''"
  by code_simp

text \<open>The two stack-trace spellings are searched one after the other: when a trace with
  blank-indented frames is followed by a tab-indented frame, the blank-indented frames are returned
  to the client.\<close>

theorem mixed_stack_trace_leaks_frames:
  "cut_stack_trace (''boom'' @ trace_marker_spaces @ ''io.trino.A'' @ trace_marker @ ''io.trino.B'')
   = ''boom'' @ trace_marker_spaces @ ''io.trino.A''"
  by code_simp

text \<open>Trino's positional syntax errors, "line N:M: ...", map to SQLSTATE 42601 whatever the
  numbers and the rest of the message.\<close>

theorem line_position_is_syntax_error:
  "code (trino_error_to_pg (''line '' @ nat_to_str n @ '':'' @ nat_to_str m @ '': '' @ rest)) = ''42601''"
proof -
  let ?up = "to_ascii_uppercase rest"
  let ?msg = "''line '' @ nat_to_str n @ '':'' @ nat_to_str m @ '': '' @ rest"
  have line: "to_ascii_uppercase ''line '' = ''LINE ''" by code_simp
  have up: "to_ascii_uppercase ?msg = (''LINE '' @ nat_to_str n) @ CHR '':'' # (nat_to_str m @ CHR '':'' # '' '' @ ?up)"
    using upper_digits [OF nat_to_str_digits [of n]] upper_digits [OF nat_to_str_digits [of m]]
 line by (simp add: to_ascii_uppercase_def ascii_upper_def)
  have "CHR '':'' \<notin> set (''LINE '' @ nat_to_str n)" "CHR '':'' \<notin> set (nat_to_str m)"
    using digits_no_colon nat_to_str_digits by auto
  then have "is_syntax_position (to_ascii_uppercase ?msg)"
    unfolding up is_syntax_position_def
    by (subst find_char_append) (auto simp: starts_with_def find_char_None_iff)
  then show ?thesis by (simp add: trino_error_to_pg_def trino_sqlstate_def Let_def)
qed

end
