(* ===== verification/Trino_Stream.thy ===== *)
theory Trino_Stream
  imports Catalog Session Error_Mapping
begin

text \<open>
  Model of \<^verbatim>\<open>src/trino_stream.rs\<close>: submitting a query to Trino, polling until the columns are known, and
  the lazy row stream with its guard on the connection's active query id. Trino is a parameter: two
  functions over a state of its own, for the first request and for following a \<open>nextUri\<close>; what it
  answers may change over time and need never end. A computation that never returns is \<open>None\<close>.
\<close>

section \<open>Trino's answers\<close>

record trino_column =
  col_name :: str
  trino_type :: str

datatype result_data = Direct "json list list" | Spooled

record query_result =
  qr_id :: str
  qr_error :: "str option"
  qr_columns :: "(str \<times> str) list option"
  qr_data :: "result_data option"
  qr_next_uri :: "str option"

record 's trino_service =
  svc_get :: "str \<Rightarrow> 's \<Rightarrow> (str + query_result) \<times> 's"
  svc_get_next :: "str \<Rightarrow> 's \<Rightarrow> (str + query_result) \<times> 's"

definition trino_columns_of :: "query_result \<Rightarrow> trino_column list option" where
  "trino_columns_of r = map_option (map (\<lambda>(n, t). \<lparr>col_name = n, trino_type = t\<rparr>)) (qr_columns r)"

definition extract_direct_rows :: "result_data option \<Rightarrow> json list list" where
  "extract_direct_rows data = (case data of Some (Direct rows) \<Rightarrow> rows | _ \<Rightarrow> [])"

definition trino_user_error :: "str \<Rightarrow> pgwire_error" where
  "trino_user_error e = UserError (trino_error_to_pg e)"

section \<open>Schema and rows\<close>

text \<open>\<open>result_format\<close> gives the format the client bound for each column; without it all is text.\<close>

type_synonym formats = "(nat \<Rightarrow> field_format) option"

definition build_pg_schema :: "trino_column list \<Rightarrow> formats \<Rightarrow> field_info list" where
  "build_pg_schema columns result_format =
     map (\<lambda>(idx, col).
            \<lparr>fi_name = col_name col, fi_table_id = None, fi_column_id = None,
             fi_type = trino_type_to_pg (trino_type col),
             fi_format = (case result_format of None \<Rightarrow> Text | Some f \<Rightarrow> f idx)\<rparr>)
         (enumerate 0 columns)"

fun encode_row_from ::
  "conv \<Rightarrow> row_encoder \<Rightarrow> field_info list \<Rightarrow> nat \<Rightarrow> (json \<times> trino_column) list \<Rightarrow> pg_value list pg_result" where
  "encode_row_from cv enc schema idx [] = Inr []"
| "encode_row_from cv enc schema idx ((value, col) # rest) =
     (case encode_cell cv value (fi_type (schema ! idx)) (trino_type col) (fi_format (schema ! idx)) of
        Inl e \<Rightarrow> Inl e
      | Inr v \<Rightarrow>
          (case enc schema idx v of
             Some e \<Rightarrow> Inl e
           | None \<Rightarrow> map_ok ((#) v) (encode_row_from cv enc schema (Suc idx) rest)))"

definition encode_row ::
  "conv \<Rightarrow> row_encoder \<Rightarrow> json list \<Rightarrow> trino_column list \<Rightarrow> field_info list \<Rightarrow> pg_value list pg_result" where
  "encode_row cv enc values columns schema = encode_row_from cv enc schema 0 (zip values columns)"

section \<open>The row stream\<close>

text \<open>
  The suspended generator: the rows of the current page still to be yielded, the next page's address,
  whether the body has started (the guard exists from then on) and whether it has ended (the guard is
  gone).
\<close>

record row_stream =
  rs_columns :: "trino_column list"
  rs_schema :: "field_info list"
  rs_slot :: "slot option"
  rs_rows :: "json list list"
  rs_next_uri :: "str option"
  rs_started :: bool
  rs_done :: bool

type_synonym row_item = "pg_value list pg_result"

text \<open>
  One poll of the stream: the next item, or \<open>None\<close> at the end. After an error item the page address
  has been taken, so the following poll ends the stream.
\<close>

partial_function (option) stream_next ::
  "conv \<Rightarrow> row_encoder \<Rightarrow> 's trino_service \<Rightarrow> row_stream \<Rightarrow> 's \<Rightarrow> gateway \<Rightarrow>
   (row_item option \<times> row_stream \<times> 's \<times> gateway) option" where
  [code]: "stream_next cv enc svc st s g =
     (if rs_done st then Some (None, st, s, g)
      else case rs_rows st of
        row # rows \<Rightarrow>
          Some (Some (encode_row cv enc row (rs_columns st) (rs_schema st)),
                st\<lparr>rs_started := True, rs_rows := rows\<rparr>, s, g)
      | [] \<Rightarrow>
          (case rs_next_uri st of
             None \<Rightarrow>
               Some (None, st\<lparr>rs_started := True, rs_done := True\<rparr>, s, set_active_query_id (rs_slot st) None g)
           | Some url \<Rightarrow>
               (case svc_get_next svc url s of
                  (Inl e, s') \<Rightarrow>
                    Some (Some (Inl (trino_user_error e)), st\<lparr>rs_started := True, rs_next_uri := None\<rparr>, s', g)
                | (Inr r, s') \<Rightarrow>
                    (case qr_error r of
                       Some e \<Rightarrow>
                         Some (Some (Inl (trino_user_error e)),
                               st\<lparr>rs_started := True, rs_next_uri := None\<rparr>, s', g)
                     | None \<Rightarrow>
                         stream_next cv enc svc
                           (st\<lparr>rs_started := True, rs_rows := extract_direct_rows (qr_data r),
                               rs_next_uri := qr_next_uri r\<rparr>) s' g))))"

text \<open>Dropping the stream runs the guard's \<open>Drop\<close> if the guard exists.\<close>

definition drop_stream :: "row_stream \<Rightarrow> gateway \<Rightarrow> gateway" where
  "drop_stream st g =
     (if rs_started st \<and> \<not> rs_done st then set_active_query_id (rs_slot st) None g else g)"

text \<open>Pulling the stream to its end, as the wire library does when it sends a result.\<close>

partial_function (option) drain_stream ::
  "conv \<Rightarrow> row_encoder \<Rightarrow> 's trino_service \<Rightarrow> row_stream \<Rightarrow> 's \<Rightarrow> gateway \<Rightarrow>
   (row_item list \<times> row_stream \<times> 's \<times> gateway) option" where
  [code]: "drain_stream cv enc svc st s g =
     Option.bind (stream_next cv enc svc st s g)
       (\<lambda>(item, st', s', g').
          case item of
            None \<Rightarrow> Some ([], st', s', g')
          | Some x \<Rightarrow>
              Option.bind (drain_stream cv enc svc st' s' g')
                (\<lambda>(xs, st'', s'', g''). Some (x # xs, st'', s'', g'')))"

section \<open>Submitting a query\<close>

text \<open>The loop that follows \<open>nextUri\<close> until the columns appear.\<close>

type_synonym polled = "trino_column list \<times> json list list \<times> str option"

partial_function (option) poll_columns ::
  "'s trino_service \<Rightarrow> slot option \<Rightarrow> trino_column list \<Rightarrow> json list list \<Rightarrow> str option \<Rightarrow> 's \<Rightarrow> gateway \<Rightarrow>
   (polled pg_result \<times> 's \<times> gateway) option" where
  [code]: "poll_columns svc slot columns rows next_uri s g =
     (if columns \<noteq> [] then Some (Inr (columns, rows, next_uri), s, g)
      else case next_uri of
        None \<Rightarrow> Some (Inr (columns, rows, None), s, g)
      | Some url \<Rightarrow>
          (case svc_get_next svc url s of
             (Inl e, s') \<Rightarrow> Some (Inl (trino_user_error e), s', set_active_query_id slot None g)
           | (Inr r, s') \<Rightarrow>
               (case qr_error r of
                  Some e \<Rightarrow> Some (Inl (trino_user_error e), s', set_active_query_id slot None g)
                | None \<Rightarrow>
                    poll_columns svc slot
                      (case trino_columns_of r of Some cols \<Rightarrow> cols | None \<Rightarrow> columns)
                      (rows @ extract_direct_rows (qr_data r)) (qr_next_uri r) s' g)))"

definition execute_trino_query ::
  "'s trino_service \<Rightarrow> str \<Rightarrow> slot option \<Rightarrow> formats \<Rightarrow> 's \<Rightarrow> gateway \<Rightarrow>
   ((field_info list \<times> row_stream) pg_result \<times> 's \<times> gateway) option" where
  "execute_trino_query svc sql slot result_format s g =
     (case svc_get svc sql s of
        (Inl e, s1) \<Rightarrow> Some (Inl (trino_user_error e), s1, g)
      | (Inr result, s1) \<Rightarrow>
          (let g1 = set_active_query_id slot (Some (qr_id result)) g in
           case qr_error result of
             Some e \<Rightarrow> Some (Inl (trino_user_error e), s1, set_active_query_id slot None g1)
           | None \<Rightarrow>
               Option.bind
                 (poll_columns svc slot (case trino_columns_of result of Some cols \<Rightarrow> cols | None \<Rightarrow> [])
                    (extract_direct_rows (qr_data result)) (qr_next_uri result) s1 g1)
                 (\<lambda>(r, s2, g2).
                    case r of
                      Inl e \<Rightarrow> Some (Inl e, s2, g2)
                    | Inr (columns, initial_rows, next_uri) \<Rightarrow>
                        (let schema = build_pg_schema columns result_format in
                         Some (Inr (schema,
                                 \<lparr>rs_columns = columns, rs_schema = schema, rs_slot = slot,
                                  rs_rows = initial_rows, rs_next_uri = next_uri,
                                  rs_started = False, rs_done = False\<rparr>), s2, g2)))))"

section \<open>Finite answers\<close>

text \<open>Trino's answers from a page address on, when they are finite and free of errors.\<close>

inductive trino_chain :: "'s trino_service \<Rightarrow> 's \<Rightarrow> str option \<Rightarrow> query_result list \<Rightarrow> 's \<Rightarrow> bool"
  for svc :: "'s trino_service" where
  last_page: "trino_chain svc s None [] s"
| next_page: "svc_get_next svc url s = (Inr r, s1) \<Longrightarrow> qr_error r = None \<Longrightarrow>
     trino_chain svc s1 (qr_next_uri r) rs s2 \<Longrightarrow> trino_chain svc s (Some url) (r # rs) s2"

inductive_cases trino_chain_NoneE: "trino_chain svc s None rs s2"

definition page_rows :: "query_result list \<Rightarrow> json list list" where
  "page_rows rs = concat (map (extract_direct_rows \<circ> qr_data) rs)"

definition page_columns :: "query_result \<Rightarrow> trino_column list" where
  "page_columns r = (case trino_columns_of r of Some cols \<Rightarrow> cols | None \<Rightarrow> [])"

text \<open>The first non-empty column list announced.\<close>

fun first_columns :: "query_result list \<Rightarrow> trino_column list" where
  "first_columns [] = []"
| "first_columns (r # rs) = (if page_columns r \<noteq> [] then page_columns r else first_columns rs)"

lemma page_rows_simps [simp]:
  "page_rows [] = []" "page_rows (r # rs) = extract_direct_rows (qr_data r) @ page_rows rs"
  "page_rows (xs @ ys) = page_rows xs @ page_rows ys"
  by (simp_all add: page_rows_def)

lemma poll_columns_chain:
  assumes "trino_chain svc s nu rs s2"
  shows "\<exists>k nu' s'. poll_columns svc slot cols rows nu s g =
      Some (Inr (if cols \<noteq> [] then cols else first_columns rs, rows @ page_rows (take k rs), nu'), s', g)
    \<and> trino_chain svc s' nu' (drop k rs) s2"
  using assms
proof (induction arbitrary: cols rows rule: trino_chain.induct)
  case (last_page s)
  show ?case
    by (subst poll_columns.simps) (auto intro!: exI [of _ 0] intro: trino_chain.last_page)
next
  case (next_page url s r s1 rs s2)
  show ?case
  proof (cases "cols \<noteq> []")
    case True
    then show ?thesis
      using next_page.hyps by (subst poll_columns.simps) (auto intro!: exI [of _ 0] intro: trino_chain.next_page)
  next
    case False
    from next_page.IH [of "page_columns r" "rows @ extract_direct_rows (qr_data r)"] obtain k nu' s' where
      "poll_columns svc slot (page_columns r) (rows @ extract_direct_rows (qr_data r)) (qr_next_uri r) s1 g =
        Some (Inr (if page_columns r \<noteq> [] then page_columns r else first_columns rs,
          (rows @ extract_direct_rows (qr_data r)) @ page_rows (take k rs), nu'), s', g)"
      "trino_chain svc s' nu' (drop k rs) s2" by blast
    with False next_page.hyps show ?thesis
      by (subst poll_columns.simps) (auto simp: page_columns_def intro!: exI [of _ "Suc k"])
  qed
qed

lemma drain_stream_page:
  assumes "\<not> rs_done st" and "rs_rows st = []" and "rs_next_uri st = Some url"
    and "svc_get_next svc url s = (Inr r, s1)" and "qr_error r = None"
  shows "drain_stream cv enc svc st s g = drain_stream cv enc svc
      (st\<lparr>rs_started := True, rs_rows := extract_direct_rows (qr_data r), rs_next_uri := qr_next_uri r\<rparr>) s1 g"
  using assms by (subst (1 2) drain_stream.simps, subst stream_next.simps) simp

lemma drain_stream_rows:
  assumes "\<not> rs_done st"
  shows "drain_stream cv enc svc st s g =
    map_option (\<lambda>(xs, r). (map (\<lambda>row. encode_row cv enc row (rs_columns st) (rs_schema st)) (rs_rows st) @ xs, r))
      (drain_stream cv enc svc (st\<lparr>rs_started := rs_started st \<or> rs_rows st \<noteq> [], rs_rows := []\<rparr>) s g)"
  using assms
proof (induction "rs_rows st" arbitrary: st)
  case Nil
  then have r: "rs_rows st = []" by simp
  then have e: "st\<lparr>rs_started := rs_started st \<or> rs_rows st \<noteq> [], rs_rows := []\<rparr> = st" by (cases st) simp
  show ?case unfolding e by (simp add: r case_prod_beta option.map_ident)
next
  case (Cons row rows)
  then have r: "rs_rows st = row # rows" by simp
  let ?st = "st\<lparr>rs_started := True, rs_rows := rows\<rparr>"
  have "drain_stream cv enc svc st s g = Option.bind (drain_stream cv enc svc ?st s g)
      (\<lambda>(xs, q). Some (encode_row cv enc row (rs_columns st) (rs_schema st) # xs, q))"
    using Cons.prems by (subst drain_stream.simps, subst stream_next.simps) (cases "drain_stream cv enc svc ?st s g"; simp add: r case_prod_beta)
  also have "\<dots> = map_option (\<lambda>(xs, r). (map (\<lambda>row. encode_row cv enc row (rs_columns st) (rs_schema st)) (rs_rows st) @ xs, r))
      (drain_stream cv enc svc (st\<lparr>rs_started := True, rs_rows := []\<rparr>) s g)"
    using Cons.hyps(1) [of ?st] Cons.prems
    by (cases "drain_stream cv enc svc (st\<lparr>rs_started := True, rs_rows := []\<rparr>) s g") (auto simp: r)
  finally show ?case by (simp add: r)
qed

lemma drain_stream_chain:
  assumes "trino_chain svc s (rs_next_uri st) rs s2" and "\<not> rs_done st"
  shows "\<exists>st'. drain_stream cv enc svc st s g =
      Some (map (\<lambda>row. encode_row cv enc row (rs_columns st) (rs_schema st)) (rs_rows st @ page_rows rs),
            st', s2, set_active_query_id (rs_slot st) None g)"
  using assms
proof (induction s "rs_next_uri st" rs s2 arbitrary: st rule: trino_chain.induct)
  case (last_page s)
  let ?st = "st\<lparr>rs_started := rs_started st \<or> rs_rows st \<noteq> [], rs_rows := []\<rparr>"
  have "drain_stream cv enc svc ?st s g =
      Some ([], ?st\<lparr>rs_started := True, rs_done := True\<rparr>, s, set_active_query_id (rs_slot st) None g)"
    using last_page by (subst drain_stream.simps, subst stream_next.simps) simp
  with drain_stream_rows [OF last_page.prems, of cv enc svc s g] show ?case by simp
next
  case (next_page url s r s1 rs s2)
  let ?st = "st\<lparr>rs_started := rs_started st \<or> rs_rows st \<noteq> [], rs_rows := []\<rparr>"
  let ?pg = "?st\<lparr>rs_started := True, rs_rows := extract_direct_rows (qr_data r), rs_next_uri := qr_next_uri r\<rparr>"
  have "drain_stream cv enc svc ?st s g = drain_stream cv enc svc ?pg s1 g"
    using next_page by (intro drain_stream_page [where url = url]) auto
  moreover from next_page.hyps(4) [of ?pg] next_page.prems obtain st' where
    "drain_stream cv enc svc ?pg s1 g =
      Some (map (\<lambda>row. encode_row cv enc row (rs_columns st) (rs_schema st)) (extract_direct_rows (qr_data r) @ page_rows rs),
            st', s2, set_active_query_id (rs_slot st) None g)" by auto
  ultimately show ?case
    using drain_stream_rows [OF next_page.prems, of cv enc svc s g] by simp
qed

lemma poll_columns_slot:
  assumes "poll_columns svc slot cols rows nu s g = Some (r, s', g')"
  shows "case r of Inl e \<Rightarrow> (\<exists>m. e = trino_user_error m) \<and> g' = set_active_query_id slot None g | Inr _ \<Rightarrow> g' = g"
proof -
  have "case fst y of Inl e \<Rightarrow> (\<exists>m. e = trino_user_error m) \<and> snd (snd y) = set_active_query_id slot None g
      | Inr _ \<Rightarrow> snd (snd y) = g"
    if "poll_columns svc slot cols rows nu s g = Some y" for y
    by (rule poll_columns.raw_induct [where P = "\<lambda>svc slot cols rows nu s g y.
          case fst y of Inl e \<Rightarrow> (\<exists>m. e = trino_user_error m) \<and> snd (snd y) = set_active_query_id slot None g
          | Inr _ \<Rightarrow> snd (snd y) = g", OF _ that])
       (fastforce split: if_splits option.splits sum.splits prod.splits)
  from this [OF assms] show ?thesis by (auto split: sum.splits)
qed

lemma stream_next_guard:
  assumes "stream_next cv enc svc st s g = Some y" and "\<not> rs_done st"
  shows "case y of (item, st', s', g') \<Rightarrow>
      rs_started st' \<and> rs_slot st' = rs_slot st \<and>
      (if item = None then rs_done st' \<and> g' = set_active_query_id (rs_slot st) None g
       else \<not> rs_done st' \<and> g' = g)"
  using assms(2)
  by (rule stream_next.raw_induct [where P = "\<lambda>cv enc svc st s g y. \<not> rs_done st \<longrightarrow> (case y of (item, st', s', g') \<Rightarrow>
        rs_started st' \<and> rs_slot st' = rs_slot st \<and>
        (if item = None then rs_done st' \<and> g' = set_active_query_id (rs_slot st) None g
         else \<not> rs_done st' \<and> g' = g))", OF _ assms(1), rule_format, rotated])
     (fastforce split: if_splits option.splits sum.splits prod.splits list.splits)

lemma execute_Inr_stream:
  assumes "execute_trino_query svc sql slot fmt s g = Some (Inr (schema, st), s', g')"
  obtains r s1 where "svc_get svc sql s = (Inr r, s1)" and "g' = set_active_query_id slot (Some (qr_id r)) g"
    and "rs_slot st = slot" and "\<not> rs_started st" and "\<not> rs_done st"
    and "rs_schema st = schema" and "schema = build_pg_schema (rs_columns st) fmt"
proof -
  obtain x s1 where x: "svc_get svc sql s = (x, s1)" by force
  from assms x obtain r where r: "x = Inr r" "qr_error r = None"
    by (auto simp: execute_trino_query_def Let_def split: sum.splits option.splits)
  let ?p = "poll_columns svc slot (case trino_columns_of r of Some cols \<Rightarrow> cols | None \<Rightarrow> [])
          (extract_direct_rows (qr_data r)) (qr_next_uri r) s1 (set_active_query_id slot (Some (qr_id r)) g)"
  from assms x r obtain y where y: "?p = Some y"
    by (cases ?p) (auto simp: execute_trino_query_def Let_def)
  with assms x r obtain t where t: "fst y = Inr t"
    by (cases "fst y") (auto simp: execute_trino_query_def Let_def split: prod.splits)
  obtain cols rows nu where c: "t = (cols, rows, nu)" by (metis prod_cases3)
  have p: "?p = Some (Inr (cols, rows, nu), s', g')"
    and st: "schema = build_pg_schema cols fmt"
      "st = \<lparr>rs_columns = cols, rs_schema = schema, rs_slot = slot, rs_rows = rows, rs_next_uri = nu,
             rs_started = False, rs_done = False\<rparr>"
    using assms x r y t c by (auto simp: execute_trino_query_def Let_def split: prod.splits)
  from poll_columns_slot [OF p] have "g' = set_active_query_id slot (Some (qr_id r)) g" by simp
  with x r st show ?thesis by (intro that) auto
qed

section \<open>Properties\<close>

text \<open>C9. Every row arrives once, in order. When Trino answers a query with a finite chain of pages without
  an error, submitting it returns, and pulling the returned stream to its end yields exactly the
  encoded rows that all pages carry inline, in Trino's order, whichever page first announced the columns; the schema
  is that of the first announced columns. The connection's cell holds the query id when the stream is
  returned and is empty when it has ended.\<close>

theorem stream_delivers_every_row_once:
  assumes "svc_get svc sql s = (Inr r0, s1)" and "qr_error r0 = None"
    and "trino_chain svc s1 (qr_next_uri r0) rs s2"
  shows "\<exists>schema st s' g' st' g''.
      execute_trino_query svc sql (Some a) fmt s g = Some (Inr (schema, st), s', g')
    \<and> schema = build_pg_schema (first_columns (r0 # rs)) fmt
    \<and> slots g' a = Some (qr_id r0)
    \<and> drain_stream cv enc svc st s' g' =
        Some (map (\<lambda>row. encode_row cv enc row (first_columns (r0 # rs)) schema) (page_rows (r0 # rs)), st', s2, g'')
    \<and> slots g'' a = None"
proof -
  let ?g1 = "set_active_query_id (Some a) (Some (qr_id r0)) g"
  define C where "C = first_columns (r0 # rs)"
  define sch where "sch = build_pg_schema C fmt"
  from poll_columns_chain [OF assms(3), of "Some a" "page_columns r0" "extract_direct_rows (qr_data r0)" ?g1]
  obtain k nu s' where p: "poll_columns svc (Some a) (page_columns r0) (extract_direct_rows (qr_data r0)) (qr_next_uri r0) s1 ?g1 =
      Some (Inr (C, extract_direct_rows (qr_data r0) @ page_rows (take k rs), nu), s', ?g1)"
    and ch: "trino_chain svc s' nu (drop k rs) s2" by (auto simp: C_def)
  let ?st = "\<lparr>rs_columns = C, rs_schema = sch, rs_slot = Some a,
      rs_rows = extract_direct_rows (qr_data r0) @ page_rows (take k rs), rs_next_uri = nu,
      rs_started = False, rs_done = False\<rparr>"
  have ex: "execute_trino_query svc sql (Some a) fmt s g = Some (Inr (sch, ?st), s', ?g1)"
    using assms(1,2) p by (simp add: execute_trino_query_def Let_def page_columns_def sch_def)
  have rows: "rs_rows ?st @ page_rows (drop k rs) = page_rows (r0 # rs)"
    by (simp flip: page_rows_simps(3))
  obtain st' where d: "drain_stream cv enc svc ?st s' ?g1 = Some (map (\<lambda>row. encode_row cv enc row (rs_columns ?st) (rs_schema ?st))
        (rs_rows ?st @ page_rows (drop k rs)), st', s2, set_active_query_id (rs_slot ?st) None ?g1)"
    using drain_stream_chain [of svc s' ?st "drop k rs" s2 cv enc ?g1] ch by auto
  have "slots ?g1 a = Some (qr_id r0)" "slots (set_active_query_id (rs_slot ?st) None ?g1) a = None"
    by (simp_all add: set_active_query_id_def)
  moreover have "drain_stream cv enc svc ?st s' ?g1 = Some (map (\<lambda>row. encode_row cv enc row C sch) (page_rows (r0 # rs)),
      st', s2, set_active_query_id (rs_slot ?st) None ?g1)"
    using d unfolding rows by simp
  ultimately show ?thesis using ex unfolding C_def [symmetric] sch_def [symmetric] by blast
qed

text \<open>A service that serves two pages: no columns at first, then the columns with one row.\<close>

definition sample_service :: "nat trino_service" where
  "sample_service =
     \<lparr>svc_get = (\<lambda>_ n. (Inr \<lparr>qr_id = ''q1'', qr_error = None, qr_columns = None, qr_data = None,
                             qr_next_uri = Some ''u1''\<rparr>, Suc n)),
      svc_get_next = (\<lambda>_ n. (Inr \<lparr>qr_id = ''q1'', qr_error = None, qr_columns = Some [(''n'', ''varchar'')],
                             qr_data = Some (Direct [[JString ''x'']]), qr_next_uri = None\<rparr>, Suc n))\<rparr>"

definition sample_columns :: "trino_column list" where
  "sample_columns = [\<lparr>col_name = ''n'', trino_type = ''varchar''\<rparr>]"

definition sample_stream :: "formats \<Rightarrow> row_stream" where
  "sample_stream fmt = \<lparr>rs_columns = sample_columns, rs_schema = build_pg_schema sample_columns fmt, rs_slot = Some 0,
     rs_rows = [[JString ''x'']], rs_next_uri = None, rs_started = False, rs_done = False\<rparr>"

lemma sample_execute:
  "execute_trino_query sample_service sql (Some 0) fmt n g =
     Some (Inr (build_pg_schema sample_columns fmt, sample_stream fmt), Suc (Suc n),
           set_active_query_id (Some 0) (Some ''q1'') g)"
  by (simp add: execute_trino_query_def sample_service_def trino_columns_of_def)
     (subst poll_columns.simps, simp add: trino_columns_of_def extract_direct_rows_def,
      subst poll_columns.simps, simp add: sample_stream_def sample_columns_def Let_def)

theorem stream_delivers_every_row_once_witness:
  "\<exists>schema st s' g' st' g''.
      execute_trino_query sample_service ''q'' (Some 0) None 0 init_gateway = Some (Inr (schema, st), s', g')
    \<and> slots g' 0 = Some ''q1''
    \<and> drain_stream sample_conv (\<lambda>_ _ _. None) sample_service st s' g' = Some ([Inr [VText ''x'']], st', 2, g'')
    \<and> slots g'' 0 = None"
proof -
  let ?r0 = "\<lparr>qr_id = ''q1'', qr_error = None, qr_columns = None, qr_data = None, qr_next_uri = Some ''u1''\<rparr>"
  let ?r1 = "\<lparr>qr_id = ''q1'', qr_error = None, qr_columns = Some [(''n'', ''varchar'')],
      qr_data = Some (Direct [[JString ''x'']]), qr_next_uri = None\<rparr>"
  have g: "svc_get sample_service ''q'' 0 = (Inr ?r0, 1)" by (simp add: sample_service_def)
  have "trino_chain sample_service 1 (Some ''u1'') [?r1] 2"
    by (rule trino_chain.next_page [where ?s1.0 = 2]) (simp_all add: sample_service_def trino_chain.last_page)
  then have ch: "trino_chain sample_service 1 (qr_next_uri ?r0) [?r1] 2" by simp
  have c: "first_columns [?r0, ?r1] = [\<lparr>col_name = ''n'', trino_type = ''varchar''\<rparr>]"
    by (simp add: page_columns_def trino_columns_of_def)
  have t: "trino_type_to_pg ''varchar'' = VARCHAR" by code_simp
  have "map (\<lambda>row. encode_row sample_conv (\<lambda>_ _ _. None) row (first_columns [?r0, ?r1])
        (build_pg_schema (first_columns [?r0, ?r1]) None)) (page_rows [?r0, ?r1]) = [Inr [VText ''x'']]"
    unfolding c by (simp add: extract_direct_rows_def encode_row_def build_pg_schema_def t encode_cell_def is_null_def
        text_value_def encode_value_def Let_def opt_text_def map_ok_def)
  with stream_delivers_every_row_once [OF g _ ch, where a = 0 and fmt = None and g = init_gateway and cv = sample_conv
      and enc = "\<lambda>_ _ _. None"]
  show ?thesis by (simp del: first_columns.simps page_rows_simps) blast
qed

text \<open>The recorded query id. When a submission returns an error after Trino accepted the query, the
  connection's cell is empty again and the error is Trino's, mapped for the client; when it succeeds,
  the cell holds the id of the submitted query; a query Trino did not accept changes nothing. No other
  connection's cell changes.\<close>

theorem submit_records_query_id:
  assumes "execute_trino_query svc sql (Some a) fmt s g = Some (res, s', g')"
  shows "case (fst (svc_get svc sql s), res) of
      (Inl _, Inl e) \<Rightarrow> g' = g \<and> (\<exists>m. e = UserError (trino_error_to_pg m))
    | (Inl _, Inr _) \<Rightarrow> False
    | (Inr r, Inl e) \<Rightarrow> slots g' = (slots g)(a := None) \<and> (\<exists>m. e = UserError (trino_error_to_pg m))
    | (Inr r, Inr _) \<Rightarrow> slots g' = (slots g)(a := Some (qr_id r))"
proof -
  obtain x s1 where x: "svc_get svc sql s = (x, s1)" by force
  show ?thesis
  proof (cases res)
    case (Inr p)
    obtain schema st where p: "p = (schema, st)" by force
    show ?thesis
      by (rule execute_Inr_stream [OF assms [unfolded Inr p]]) (use x Inr in \<open>auto simp: set_active_query_id_def\<close>)
  next
    case (Inl e)
    show ?thesis
    proof (cases x)
      case (Inl m)
      with assms x \<open>res = Inl e\<close> show ?thesis by (auto simp: execute_trino_query_def trino_user_error_def)
    next
      case (Inr r)
      let ?g1 = "set_active_query_id (Some a) (Some (qr_id r)) g"
      have "(\<exists>m. e = trino_user_error m) \<and> g' = set_active_query_id (Some a) None ?g1"
      proof (cases "qr_error r")
        case None
        with assms x Inr \<open>res = Inl e\<close> have
          "poll_columns svc (Some a) (case trino_columns_of r of Some cols \<Rightarrow> cols | None \<Rightarrow> [])
             (extract_direct_rows (qr_data r)) (qr_next_uri r) s1 ?g1 = Some (Inl e, s', g')"
          by (auto simp: execute_trino_query_def Let_def bind_eq_Some_conv split: sum.splits)
             (metis obj_sumE prod_cases3)
        from poll_columns_slot [OF this] show ?thesis by simp
      qed (use assms x Inr \<open>res = Inl e\<close> in \<open>auto simp: execute_trino_query_def Let_def\<close>)
      with x Inr Inl show ?thesis by (auto simp: set_active_query_id_def trino_user_error_def)
    qed
  qed
qed

theorem submit_records_query_id_witness:
  "\<exists>res s' g'. execute_trino_query sample_service ''q'' (Some 0) None 0 init_gateway = Some (res, s', g')
     \<and> slots g' = (slots init_gateway)(0 := Some ''q1'')"
proof -
  have "fst (svc_get sample_service ''q'' 0) = Inr \<lparr>qr_id = ''q1'', qr_error = None, qr_columns = None, qr_data = None,
      qr_next_uri = Some ''u1''\<rparr>" by (simp add: sample_service_def)
  with submit_records_query_id [OF sample_execute [of "''q''" None 0 init_gateway]]
  have "slots (set_active_query_id (Some 0) (Some ''q1'') init_gateway) = (slots init_gateway)(0 := Some ''q1'')" by simp
  with sample_execute [of "''q''" None 0 init_gateway] show ?thesis by blast
qed

text \<open>One more poll of a stream, whatever the states of Trino and of the gateway are by then.\<close>

definition polled_to :: "conv \<Rightarrow> row_encoder \<Rightarrow> 's trino_service \<Rightarrow> row_stream \<Rightarrow> row_stream \<Rightarrow> bool" where
  "polled_to cv enc svc st st' \<longleftrightarrow> (\<exists>s g item s' g'. stream_next cv enc svc st s g = Some (item, st', s', g'))"

lemma stream_next_done: "rs_done st \<Longrightarrow> stream_next cv enc svc st s g = Some (item, st', s', g') \<Longrightarrow> item = None \<and> st' = st \<and> g' = g"
  by (subst (asm) stream_next.simps) auto

lemma polled_slot: "(polled_to cv enc svc)\<^sup>*\<^sup>* st st' \<Longrightarrow> rs_slot st' = rs_slot st"
proof (induction rule: rtranclp_induct)
  case (step t u)
  then obtain s g item s' g' where n: "stream_next cv enc svc t s g = Some (item, u, s', g')" by (auto simp: polled_to_def)
  show ?case
  proof (cases "rs_done t")
    case True
    with stream_next_done [OF True n] step.IH show ?thesis by simp
  next
    case False
    from stream_next_guard [OF n False] step.IH show ?thesis by simp
  qed
qed simp

text \<open>C32. The guard works once it exists. After any number of polls of a query's stream, in whatever states of
  Trino and of the gateway, one more poll either ends the stream or leaves the cells alone; when it has
  not ended before, ending it by this poll or dropping it after this poll leaves the connection's cell
  empty and touches no other cell, and a stream that has ended touches no cell any more.\<close>

theorem polled_stream_clears_query_id:
  assumes "execute_trino_query svc sql (Some a) fmt s g = Some (Inr (schema, st), s', g')"
    and "(polled_to cv enc svc)\<^sup>*\<^sup>* st st1" and "stream_next cv enc svc st1 s1 g1 = Some (item, st', s2, g2)"
  shows "slots (drop_stream st' g2) = (if rs_done st1 then slots g1 else (slots g1)(a := None))
    \<and> (item = None \<longleftrightarrow> rs_done st') \<and> (\<not> rs_done st' \<longrightarrow> g2 = g1)"
proof -
  obtain "rs_slot st = Some a" by (rule execute_Inr_stream [OF assms(1)])
  then have a: "rs_slot st1 = Some a" using polled_slot [OF assms(2)] by simp
  show ?thesis
  proof (cases "rs_done st1")
    case True
    with stream_next_done [OF True assms(3)] show ?thesis by (simp add: drop_stream_def)
  next
    case False
    from stream_next_guard [OF assms(3) False] a False show ?thesis
      by (auto simp: drop_stream_def set_active_query_id_def split: if_splits)
  qed
qed

theorem polled_stream_clears_query_id_witness:
  "\<exists>st1 g. polled_to sample_conv (\<lambda>_ _ _. None) sample_service (sample_stream None) st1
    \<and> stream_next sample_conv (\<lambda>_ _ _. None) sample_service st1 2 (set_active_query_id (Some 0) (Some ''q1'') init_gateway)
        = Some (None, st1\<lparr>rs_done := True\<rparr>, 2, g)
    \<and> slots (drop_stream (st1\<lparr>rs_done := True\<rparr>) g) = (slots init_gateway)(0 := None)"
proof -
  let ?st1 = "(sample_stream None)\<lparr>rs_started := True, rs_rows := []\<rparr>" and ?g = "set_active_query_id (Some 0) (Some ''q1'') init_gateway"
  have "\<exists>item. stream_next sample_conv (\<lambda>_ _ _. None) sample_service (sample_stream None) 2 init_gateway = Some (item, ?st1, 2, init_gateway)"
    by (subst stream_next.simps) (simp add: sample_stream_def)
  then have p: "polled_to sample_conv (\<lambda>_ _ _. None) sample_service (sample_stream None) ?st1"
    unfolding polled_to_def by blast
  have "\<exists>g. stream_next sample_conv (\<lambda>_ _ _. None) sample_service ?st1 2 ?g = Some (None, ?st1\<lparr>rs_done := True\<rparr>, 2, g)"
    by (subst stream_next.simps) (simp add: sample_stream_def)
  then obtain g where n: "stream_next sample_conv (\<lambda>_ _ _. None) sample_service ?st1 2 ?g = Some (None, ?st1\<lparr>rs_done := True\<rparr>, 2, g)" by blast
  from polled_stream_clears_query_id [OF sample_execute [of "''q''" None 0 init_gateway] r_into_rtranclp [where r = "polled_to _ _ _", OF p] n]
  have "slots (drop_stream (?st1\<lparr>rs_done := True\<rparr>) g) = (slots init_gateway)(0 := None)"
    by (simp add: sample_stream_def set_active_query_id_def)
  with p n show ?thesis by blast
qed

text \<open>A stream that is dropped before its first poll leaves the query id behind: the guard is created by
  the stream's body, which has not run. After a statement without a result set, whose stream is never
  polled, a cancel request is therefore still sent to Trino for the finished query.\<close>

theorem unpolled_stream_keeps_query_id:
  assumes "execute_trino_query svc sql (Some a) fmt s g = Some (Inr (schema, st), s', g')"
    and "svc_get svc sql s = (Inr r, s1)"
  shows "drop_stream st g' = g' \<and> slots (drop_stream st g') a = Some (qr_id r)"
  by (rule execute_Inr_stream [OF assms(1)])
     (use assms(2) in \<open>auto simp: drop_stream_def set_active_query_id_def\<close>)

theorem unpolled_stream_keeps_query_id_witness:
  "\<exists>g'. slots (drop_stream (sample_stream None) g') 0 = Some ''q1''"
  using unpolled_stream_keeps_query_id [OF sample_execute [of "''q''" None 0 init_gateway]]
  by (auto simp: sample_service_def)

text \<open>In a batch the cell is shared: when a second query of the same connection was submitted before the
  first one's stream is pulled, the end of the first stream empties the cell while the second query's
  stream is still unread, so a cancel request no longer reaches the second query.\<close>

theorem first_stream_end_drops_second_query_id:
  assumes "execute_trino_query svc sql1 (Some a) fmt s g = Some (Inr (schema1, st1), s1, g1)"
    and "execute_trino_query svc sql2 (Some a) fmt s1 g1 = Some (Inr (schema2, st2), s2, g2)"
    and "svc_get svc sql2 s1 = (Inr r2, t2)"
    and "stream_next cv enc svc st1' s3 g2 = Some (None, st1'', s4, g4)" and "\<not> rs_done st1'" and "rs_slot st1' = rs_slot st1"
  shows "slots g2 a = Some (qr_id r2) \<and> slots g4 a = None \<and> \<not> rs_done st2"
proof -
  obtain "rs_slot st1 = Some a" by (rule execute_Inr_stream [OF assms(1)])
  moreover from stream_next_guard [OF assms(4,5)] have "g4 = set_active_query_id (rs_slot st1') None g2" by simp
  moreover obtain "slots g2 a = Some (qr_id r2)" "\<not> rs_done st2"
    by (rule execute_Inr_stream [OF assms(2)]) (use assms(3) in \<open>auto simp: set_active_query_id_def\<close>)
  ultimately show ?thesis using assms(6) by (simp add: set_active_query_id_def)
qed

theorem first_stream_end_drops_second_query_id_witness:
  "\<exists>g2 g4 st. execute_trino_query sample_service ''b'' (Some 0) None 2 (set_active_query_id (Some 0) (Some ''q1'') init_gateway)
       = Some (Inr (build_pg_schema sample_columns None, sample_stream None), 4, g2)
     \<and> stream_next sample_conv (\<lambda>_ _ _. None) sample_service ((sample_stream None)\<lparr>rs_started := True, rs_rows := []\<rparr>) 4 g2
       = Some (None, st, 4, g4)
     \<and> slots g2 0 = Some ''q1'' \<and> slots g4 0 = None"
proof -
  let ?g1 = "set_active_query_id (Some 0) (Some ''q1'') init_gateway"
  let ?g2 = "set_active_query_id (Some 0) (Some ''q1'') ?g1"
  let ?st = "(sample_stream None)\<lparr>rs_started := True, rs_rows := []\<rparr>"
  have e1: "execute_trino_query sample_service ''a'' (Some 0) None 0 init_gateway =
      Some (Inr (build_pg_schema sample_columns None, sample_stream None), 2, ?g1)" by (simp add: sample_execute)
  have e2: "execute_trino_query sample_service ''b'' (Some 0) None 2 ?g1 =
      Some (Inr (build_pg_schema sample_columns None, sample_stream None), 4, ?g2)" by (simp add: sample_execute)
  have n: "stream_next sample_conv (\<lambda>_ _ _. None) sample_service ?st 4 ?g2
      = Some (None, ?st\<lparr>rs_done := True\<rparr>, 4, set_active_query_id (Some 0) None ?g2)"
    by (subst stream_next.simps) (simp add: sample_stream_def)
  have "slots ?g2 0 = Some ''q1'' \<and> slots (set_active_query_id (Some 0) None ?g2) 0 = None"
    using first_stream_end_drops_second_query_id [OF e1 e2 _ n] by (simp add: sample_service_def sample_stream_def)
  with e2 n show ?thesis by blast
qed

end
