(* ===== verification/Query_Pipeline.thy ===== *)
theory Query_Pipeline
  imports Intercept Rewrite Trino_Stream
begin

text \<open>
  Model of \<^verbatim>\<open>src/query_pipeline.rs\<close>, \<^verbatim>\<open>src/query_simple.rs\<close> and \<^verbatim>\<open>src/query_extended.rs\<close>: splitting a
  message into statements, routing each one (intercept, catalog, rewrite, Trino), and the handlers of
  the simple and the extended query protocol with the portal cache between Describe and Execute.
\<close>

section \<open>The pipeline\<close>

datatype gw_response = Local local_response | RowStream "field_info list" row_stream | ErrorResponse error_info

text \<open>The environment: row encoder, SQL library, wire type ids, and Trino seen through a client.\<close>

record 's pipe_env =
  pe_enc :: row_encoder
  pe_lib :: sql_lib
  pe_oid :: "pg_type \<Rightarrow> nat"
  pe_svc :: "trino_client \<Rightarrow> 's trino_service"
  pe_get_all :: "trino_client \<Rightarrow> str \<Rightarrow> 's \<Rightarrow> (str + json list list) \<times> 's"

definition dynamic_sql :: "(str \<Rightarrow> bool) \<Rightarrow> str" where
  "dynamic_sql refs = (if refs ''pg_class'' then pg_class_sql else pg_attribute_sql)"

definition process_single_statement ::
  "'s pipe_env \<Rightarrow> str \<Rightarrow> trino_client \<Rightarrow> config \<Rightarrow> slot option \<Rightarrow> formats \<Rightarrow> bool \<Rightarrow> 's \<Rightarrow> gateway \<Rightarrow>
   (gw_response list pg_result \<times> 's \<times> gateway) option" where
  "process_single_statement env query tc cfg slot fmt tls s g =
     (let lib = pe_lib env; pq = parsed_query_new lib query in
      case try_intercept (pe_enc env) lib query pq (trino_catalog cfg) (trino_schema cfg) tls of
        Some r \<Rightarrow> Some (map_ok (map Local) r, s, g)
      | None \<Rightarrow>
          (case handle_dynamic_catalog_query (pe_enc env) (pe_oid env) (\<lambda>q. fst (pe_get_all env tc q s))
                  (references_table lib pq) of
             Some r \<Rightarrow>
               Some (map_ok (map (Local \<circ> local_of)) r,
                     snd (pe_get_all env tc (dynamic_sql (references_table lib pq)) s), g)
           | None \<Rightarrow>
               (let query' = (case rewrite_info_schema_columns lib query pq of Some q \<Rightarrow> q | None \<Rightarrow> query);
                    rewritten = rewrite_sql lib query'
                in Option.bind (execute_trino_query (pe_svc env tc) rewritten slot fmt s g)
                     (\<lambda>(r, s', g').
                        case r of
                          Inl e \<Rightarrow> Some (Inl e, s', g')
                        | Inr (schema, st) \<Rightarrow>
                            if schema = [] then Some (Inr [Local (Execution ''OK'')], s', drop_stream st g')
                            else Some (Inr [RowStream schema st], s', g')))))"

text \<open>The text the last branch forwards: the rewritten statement, after the splice for the information schema.\<close>

definition trino_sql :: "sql_lib \<Rightarrow> str \<Rightarrow> str" where
  "trino_sql lib query =
     rewrite_sql lib (case rewrite_info_schema_columns lib query (parsed_query_new lib query) of Some q \<Rightarrow> q | None \<Rightarrow> query)"

definition split_statements :: "sql_lib \<Rightarrow> str \<Rightarrow> str list" where
  "split_statements lib query =
     (case parse_sql lib query of
        Some stmts \<Rightarrow> if 1 < length stmts then map (stmt_text lib) stmts else [query]
      | None \<Rightarrow> [query])"

text \<open>
  The loop over a batch. On a fatal error the responses so far are dropped; none of their streams has
  been polled, so the drop has no effect.
\<close>

fun process_batch ::
  "'s pipe_env \<Rightarrow> trino_client \<Rightarrow> config \<Rightarrow> slot option \<Rightarrow> formats \<Rightarrow> bool \<Rightarrow> str list \<Rightarrow> gw_response list \<Rightarrow> 's \<Rightarrow>
   gateway \<Rightarrow> (gw_response list pg_result \<times> 's \<times> gateway) option" where
  "process_batch env tc cfg slot fmt tls [] out s g = Some (Inr out, s, g)"
| "process_batch env tc cfg slot fmt tls (stmt # stmts) out s g =
     Option.bind (process_single_statement env stmt tc cfg slot fmt tls s g)
       (\<lambda>(r, s', g').
          case r of
            Inr responses \<Rightarrow> process_batch env tc cfg slot fmt tls stmts (out @ responses) s' g'
          | Inl e \<Rightarrow>
              (case e of
                 UserError info \<Rightarrow> Some (Inr (out @ [ErrorResponse info]), s', g')
               | _ \<Rightarrow> Some (Inl e, s', g')))"

definition process_query ::
  "'s pipe_env \<Rightarrow> str \<Rightarrow> trino_client \<Rightarrow> config \<Rightarrow> slot option \<Rightarrow> formats \<Rightarrow> bool \<Rightarrow> 's \<Rightarrow> gateway \<Rightarrow>
   (gw_response list pg_result \<times> 's \<times> gateway) option" where
  "process_query env query tc cfg slot fmt tls s g =
     (let pieces = split_statements (pe_lib env) query in
      if length pieces \<le> 1 then process_single_statement env query tc cfg slot fmt tls s g
      else process_batch env tc cfg slot fmt tls pieces [] s g)"

section \<open>The simple query handler\<close>

type_synonym session_client = "gw_response pg_client"

definition no_state_error :: pgwire_error where
  "no_state_error = ApiError ''Connection state not found''"

definition simple_do_query ::
  "'s pipe_env \<Rightarrow> session_client \<Rightarrow> str \<Rightarrow> 's \<Rightarrow> gateway \<Rightarrow> (gw_response list pg_result \<times> 's \<times> gateway) option" where
  "simple_do_query env client query s g =
     (case session_state client of
        None \<Rightarrow> Some (Inl no_state_error, s, g)
      | Some cs \<Rightarrow>
          process_query env query (cs_trino_client cs) (cs_config cs) (Some (cs_active_query_id cs)) None
            (is_secure client) s g)"

section \<open>The extended query handler\<close>

record portal =
  portal_name :: str
  portal_statement :: str
  result_column_format :: "nat \<Rightarrow> field_format"

text \<open>Dropping a response drops its stream.\<close>

definition drop_response :: "gw_response \<Rightarrow> gateway \<Rightarrow> gateway" where
  "drop_response r g = (case r of RowStream _ st \<Rightarrow> drop_stream st g | _ \<Rightarrow> g)"

text \<open>\<open>responses.into_iter().next()\<close>: the first response; the others are dropped.\<close>

definition first_response ::
  "gw_response list pg_result \<times> 's \<times> gateway \<Rightarrow> gw_response pg_result \<times> 's \<times> gateway" where
  "first_response res =
     (case res of
        (Inl e, s, g) \<Rightarrow> (Inl e, s, g)
      | (Inr [], s, g) \<Rightarrow> (Inl (ApiError ''Empty pipeline response''), s, g)
      | (Inr (r # rest), s, g) \<Rightarrow> (Inr r, s, fold drop_response rest g))"

definition run_portal ::
  "'s pipe_env \<Rightarrow> session_client \<Rightarrow> gw_response connection_state \<Rightarrow> str \<Rightarrow> formats \<Rightarrow> 's \<Rightarrow> gateway \<Rightarrow>
   (gw_response pg_result \<times> 's \<times> gateway) option" where
  "run_portal env client cs query fmt s g =
     map_option first_response
       (process_query env query (cs_trino_client cs) (cs_config cs) (Some (cs_active_query_id cs)) fmt
          (is_secure client) s g)"

definition response_fields :: "gw_response \<Rightarrow> field_info list" where
  "response_fields r =
     (case r of
        RowStream schema _ \<Rightarrow> schema
      | Local (LocalQuery schema _) \<Rightarrow> schema
      | _ \<Rightarrow> [])"

definition extended_do_query ::
  "'s pipe_env \<Rightarrow> session_client \<Rightarrow> portal \<Rightarrow> 's \<Rightarrow> gateway \<Rightarrow>
   (gw_response pg_result \<times> session_client \<times> 's \<times> gateway) option" where
  "extended_do_query env client p s g =
     (case session_state client of
        None \<Rightarrow> Some (Inl no_state_error, client, s, g)
      | Some cs \<Rightarrow>
          (case take_cached (cs_portals cs) (portal_name p) of
             Inl e \<Rightarrow> Some (Inl e, client, s, g)
           | Inr (cached_entry, cache) \<Rightarrow>
               (let cs' = cs\<lparr>cs_portals := cache\<rparr>; client' = client\<lparr>session_state := Some cs'\<rparr>;
                    run = (\<lambda>g'. map_option (\<lambda>(r, s'', g''). (r, client', s'', g''))
                             (run_portal env client cs' (portal_statement p) (Some (result_column_format p)) s g'))
                in case cached_entry of
                     Some entry \<Rightarrow>
                       if cp_query entry = portal_statement p then Some (Inr (cp_response entry), client', s, g)
                       else run (drop_response (cp_response entry) g)
                   | None \<Rightarrow> run g)))"

text \<open>The answer to Describe Statement: parameter types and fields; \<open>no_data\<close> has neither.\<close>

definition no_data :: "pg_type list \<times> field_info list" where
  "no_data = ([], [])"

definition do_describe_statement ::
  "'s pipe_env \<Rightarrow> session_client \<Rightarrow> str \<Rightarrow> pg_type option list \<Rightarrow> 's \<Rightarrow> gateway \<Rightarrow>
   ((pg_type list \<times> field_info list) pg_result \<times> 's \<times> gateway) option" where
  "do_describe_statement env client query parameter_types s g =
     (let param_types = map (\<lambda>t. case t of Some ty \<Rightarrow> ty | None \<Rightarrow> TEXT) parameter_types in
      if \<not> returns_rows (parsed_query_new (pe_lib env) query) then Some (Inr no_data, s, g)
      else case session_state client of
        None \<Rightarrow> Some (Inl no_state_error, s, g)
      | Some cs \<Rightarrow>
          map_option
            (\<lambda>(r, s', g').
               case r of
                 Inl e \<Rightarrow> (Inl e, s', g')
               | Inr resp \<Rightarrow> (Inr (param_types, response_fields resp), s', drop_response resp g'))
            (run_portal env client cs query None s g))"

definition do_describe_portal ::
  "'s pipe_env \<Rightarrow> session_client \<Rightarrow> portal \<Rightarrow> 's \<Rightarrow> gateway \<Rightarrow>
   (field_info list pg_result \<times> session_client \<times> 's \<times> gateway) option" where
  "do_describe_portal env client p s g =
     (case session_state client of
        None \<Rightarrow> Some (Inl no_state_error, client, s, g)
      | Some cs \<Rightarrow>
          map_option
            (\<lambda>(r, s', g').
               case r of
                 Inl e \<Rightarrow> (Inl e, client, s', g')
               | Inr resp \<Rightarrow>
                   (let entry = \<lparr>cp_query = portal_statement p, cp_response = resp\<rparr>;
                        old = map_of (pc_entries (cs_portals cs)) (portal_name p)
                    in case insert_cached (cs_portals cs) (portal_name p) entry of
                         Inl e \<Rightarrow> (Inl e, client, s', drop_response resp g')
                       | Inr cache \<Rightarrow>
                           (Inr (response_fields resp), client\<lparr>session_state := Some (cs\<lparr>cs_portals := cache\<rparr>)\<rparr>, s',
                            if map_of (pc_entries cache) (portal_name p) = Some entry
                            then (case old of Some e \<Rightarrow> drop_response (cp_response e) g' | None \<Rightarrow> g')
                            else drop_response resp g')))
            (run_portal env client cs (portal_statement p) (Some (result_column_format p)) s g))"

section \<open>Lemmas\<close>

lemma insert_cached_lookup:
  assumes "cache_ok c" and "insert_cached c name entry = Inr c'"
  shows "cache_ok c'"
    and "map_of (pc_entries c') name =
      (if 64 \<le> length (pc_entries c) \<and> map_of (pc_entries c) name = None then None else Some entry)"
proof -
  obtain c'' where "insert_cached c name entry = Inr c''" "cache_ok c''" by (rule insert_cached_ok [OF assms(1)]) (rule that)
  with assms(2) show "cache_ok c'" by simp
  have "cache_wf (pc_entries c)" "\<not> pc_poisoned c" using assms(1) by (simp_all add: cache_ok_def)
  with assms(2) show "map_of (pc_entries c') name =
      (if 64 \<le> length (pc_entries c) \<and> map_of (pc_entries c) name = None then None else Some entry)"
    by (auto simp: insert_cached_def MAX_CACHED_PORTALS_def portals.lookup_insert split: if_splits)
qed

lemma do_describe_portal_InrD:
  assumes "session_state client = Some cs" and "do_describe_portal env client p s g = Some (Inr fs, client', s', g')"
  obtains resp g1 cache where
    "run_portal env client cs (portal_statement p) (Some (result_column_format p)) s g = Some (Inr resp, s', g1)"
    "insert_cached (cs_portals cs) (portal_name p) \<lparr>cp_query = portal_statement p, cp_response = resp\<rparr> = Inr cache"
    "client' = client\<lparr>session_state := Some (cs\<lparr>cs_portals := cache\<rparr>)\<rparr>" "fs = response_fields resp"
proof -
  let ?run = "run_portal env client cs (portal_statement p) (Some (result_column_format p)) s g"
  from assms obtain y where y: "?run = Some y" by (cases ?run) (auto simp: do_describe_portal_def)
  obtain r s1 g1 where rs: "y = (r, s1, g1)" by (metis prod_cases3)
  from assms y rs obtain resp where resp: "r = Inr resp" by (cases r) (auto simp: do_describe_portal_def)
  let ?i = "insert_cached (cs_portals cs) (portal_name p) \<lparr>cp_query = portal_statement p, cp_response = resp\<rparr>"
  from assms y rs resp obtain cache where "?i = Inr cache" by (cases ?i) (auto simp: do_describe_portal_def Let_def)
  with assms y rs resp show ?thesis by (intro that [of resp g1 cache]) (auto simp: do_describe_portal_def Let_def)
qed

lemma extended_do_query_cached:
  assumes "session_state client = Some cs" and "cache_ok (cs_portals cs)"
    and "map_of (pc_entries (cs_portals cs)) (portal_name p) = Some \<lparr>cp_query = portal_statement p, cp_response = resp\<rparr>"
  shows "\<exists>client'. extended_do_query env client p s g = Some (Inr resp, client', s, g)"
proof -
  obtain c' where "take_cached (cs_portals cs) (portal_name p) = Inr (map_of (pc_entries (cs_portals cs)) (portal_name p), c')"
    by (rule take_cached_ok [OF assms(2)]) (rule that)
  with assms show ?thesis by (simp add: extended_do_query_def Let_def)
qed

lemma txn_tag_not_set: "txn_tag u = Some tag \<Longrightarrow> \<not> starts_with u ''SET ''"
  by (auto simp: txn_tag_def starts_with_def prefix_def split: if_splits)

text \<open>A sample environment and session for concrete evaluations.\<close>

definition sample_pipe :: "nat pipe_env" where
  "sample_pipe = \<lparr>pe_enc = (\<lambda>_ _ _. None), pe_lib = sample_lib [], pe_oid = (\<lambda>_. 25), pe_svc = (\<lambda>_. sample_service),
     pe_get_all = (\<lambda>_ _ n. (Inr [], n))\<rparr>"

definition sample_tc :: trino_client where
  "sample_tc = \<lparr>cl_user = ''u'', cl_host = ''h'', cl_port = 1, cl_catalog = ''c'', cl_schema = ''s'',
     cl_secure = True, cl_no_verify = False, cl_auth = None, cl_auth_http_insecure = False\<rparr>"

definition sample_cs :: "gw_response portal_cache \<Rightarrow> gw_response connection_state" where
  "sample_cs cache = \<lparr>cs_trino_client = sample_tc, cs_config = default_config, cs_portals = cache,
     cs_active_query_id = 0, cs_cancel_key = (1, I32 7)\<rparr>"

definition sample_session :: "gw_response portal_cache \<Rightarrow> session_client" where
  "sample_session cache = (new_client True)\<lparr>session_state := Some (sample_cs cache)\<rparr>"

definition sample_portal :: portal where
  "sample_portal = \<lparr>portal_name = ''p'', portal_statement = ''SELECT n'', result_column_format = (\<lambda>_. Text)\<rparr>"

definition sample_cache :: "str \<Rightarrow> gw_response portal_cache" where
  "sample_cache q = new_portal_cache\<lparr>pc_entries := [(''p'', \<lparr>cp_query = q, cp_response = Local (Execution ''OK'')\<rparr>)]\<rparr>"

lemma sample_cache_ok: "cache_ok (sample_cache q)"
  by (simp add: sample_cache_def new_portal_cache_def cache_ok_def cache_wf_def MAX_CACHED_PORTALS_def)

lemma sample_intercept:
  "try_intercept (\<lambda>_ _ _. None) (sample_lib []) ''SELECT n'' \<lparr>parsed = Some []\<rparr> cat sch tls = None"
proof -
  have "trim (trim_end_matches (CHR '';'') (trim ''SELECT n'')) = ''SELECT n''" "trim ''SELECT n'' \<noteq> []"
    "to_uppercase ''SELECT n'' = ''SELECT N''" by code_simp+
  moreover have "\<not> starts_with ''SELECT N'' ''SET ''" "txn_tag ''SELECT N'' = None" "\<not> starts_with ''SELECT N'' ''DISCARD ''"
    "\<not> starts_with ''SELECT N'' ''DEALLOCATE ''" "\<not> starts_with ''SELECT N'' ''SHOW ''" by code_simp+
  ultimately show ?thesis
    by (simp add: try_intercept_def Let_def intercept_server_functions_def is_bare_scalar_select_def bare_select_def
        references_table_def references_table_in_schema_def sample_lib_def handle_catalog_query_def
        intercept_missing_information_schema_def list_ex_iff)
qed

lemma sample_process:
  "process_query sample_pipe ''SELECT n'' tc default_config (Some 0) fmt tls s g =
     Some (Inr [RowStream (build_pg_schema sample_columns fmt) (sample_stream fmt)], Suc (Suc s),
       set_active_query_id (Some 0) (Some ''q1'') g)"
proof -
  have p: "parsed_query_new (sample_lib []) ''SELECT n'' = \<lparr>parsed = Some []\<rparr>"
    by (simp add: parsed_query_new_def sample_lib_def)
  have d: "handle_dynamic_catalog_query enc oid ga (references_table (sample_lib []) \<lparr>parsed = Some []\<rparr>) = None" for enc oid ga
    by (simp add: handle_dynamic_catalog_query_def references_table_def sample_lib_def)
  have r: "rewrite_info_schema_columns (sample_lib []) ''SELECT n'' \<lparr>parsed = Some []\<rparr> = None"
    "rewrite_sql (sample_lib []) q = q" for q
    by (simp_all add: rewrite_info_schema_columns_def references_table_in_schema_def sample_lib_def rewrite_sql_def)
  have sp: "split_statements (sample_lib []) ''SELECT n'' = [''SELECT n'']"
    by (simp add: split_statements_def sample_lib_def)
  have ne: "build_pg_schema sample_columns fmt \<noteq> []" by (simp add: build_pg_schema_def sample_columns_def)
  show ?thesis
    by (simp add: process_query_def sp process_single_statement_def Let_def sample_pipe_def p sample_intercept
        d r sample_execute ne)
qed

lemma sample_run:
  "run_portal sample_pipe (sample_session cache) (sample_cs c) ''SELECT n'' fmt s g =
     Some (Inr (RowStream (build_pg_schema sample_columns fmt) (sample_stream fmt)), Suc (Suc s),
       set_active_query_id (Some 0) (Some ''q1'') g)"
  by (simp add: run_portal_def sample_cs_def sample_process first_response_def)

section \<open>Properties\<close>

text \<open>C12. Describe and Execute run the statement once: when Describe Portal succeeds and the portal cache has
  room (or already holds that portal), the following Execute of the same portal returns exactly the
  response Describe obtained, without a request to Trino and without touching the shared state, and
  the fields announced at Describe are those of that response.\<close>

theorem describe_then_execute_runs_once:
  assumes "session_state client = Some cs" and "cache_ok (cs_portals cs)"
    and "length (pc_entries (cs_portals cs)) < 64 \<or> map_of (pc_entries (cs_portals cs)) (portal_name p) \<noteq> None"
    and "do_describe_portal env client p s g = Some (Inr fs, client', s', g')"
  shows "\<exists>resp g1 client''.
      run_portal env client cs (portal_statement p) (Some (result_column_format p)) s g = Some (Inr resp, s', g1)
    \<and> fs = response_fields resp
    \<and> extended_do_query env client' p s' g' = Some (Inr resp, client'', s', g')"
proof -
  obtain resp g1 cache where
    r: "run_portal env client cs (portal_statement p) (Some (result_column_format p)) s g = Some (Inr resp, s', g1)"
    and i: "insert_cached (cs_portals cs) (portal_name p) \<lparr>cp_query = portal_statement p, cp_response = resp\<rparr> = Inr cache"
    and c: "client' = client\<lparr>session_state := Some (cs\<lparr>cs_portals := cache\<rparr>)\<rparr>" and f: "fs = response_fields resp"
    by (rule do_describe_portal_InrD [OF assms(1,4)]) (rule that)
  note l = insert_cached_lookup [OF assms(2) i]
  have "map_of (pc_entries cache) (portal_name p) = Some \<lparr>cp_query = portal_statement p, cp_response = resp\<rparr>"
    using l(2) assms(3) by auto
  with l(1) c have "\<exists>client''. extended_do_query env client' p s' g' = Some (Inr resp, client'', s', g')"
    by (intro extended_do_query_cached [where cs = "cs\<lparr>cs_portals := cache\<rparr>"]) simp_all
  with r f show ?thesis by blast
qed

theorem describe_then_execute_runs_once_witness:
  "\<exists>fs client' g' client''.
      do_describe_portal sample_pipe (sample_session new_portal_cache) sample_portal 0 init_gateway = Some (Inr fs, client', 2, g')
    \<and> extended_do_query sample_pipe client' sample_portal 2 g' =
        Some (Inr (RowStream fs (sample_stream (Some (\<lambda>_. Text)))), client'', 2, g')"
proof -
  let ?cl = "sample_session new_portal_cache"
  have cs: "session_state ?cl = Some (sample_cs new_portal_cache)" by (simp add: sample_session_def)
  have room: "cache_ok (cs_portals (sample_cs new_portal_cache))"
    "length (pc_entries (cs_portals (sample_cs new_portal_cache))) < 64
     \<or> map_of (pc_entries (cs_portals (sample_cs new_portal_cache))) (portal_name sample_portal) \<noteq> None"
    by (simp_all add: sample_cs_def new_portal_cache_def cache_ok_def cache_wf_def)
  have run: "run_portal sample_pipe ?cl (sample_cs new_portal_cache) (portal_statement sample_portal)
      (Some (result_column_format sample_portal)) 0 init_gateway =
      Some (Inr (RowStream (build_pg_schema sample_columns (Some (\<lambda>_. Text))) (sample_stream (Some (\<lambda>_. Text)))), 2,
        set_active_query_id (Some 0) (Some ''q1'') init_gateway)"
    by (simp add: sample_portal_def sample_run)
  have ins: "insert_cached (cs_portals (sample_cs new_portal_cache)) n e = Inr (new_portal_cache\<lparr>pc_entries := [(n, e)]\<rparr>)" for n e
    by (simp add: insert_cached_def sample_cs_def new_portal_cache_def MAX_CACHED_PORTALS_def cache_insert_def)
  obtain fs client' g' where d: "do_describe_portal sample_pipe ?cl sample_portal 0 init_gateway = Some (Inr fs, client', 2, g')"
    and f: "fs = build_pg_schema sample_columns (Some (\<lambda>_. Text))"
    by (simp add: do_describe_portal_def cs run ins Let_def response_fields_def)
  from describe_then_execute_runs_once [OF cs room d] run f d show ?thesis by auto
qed

text \<open>With a full cache the response of Describe is dropped and Execute runs the statement a second time.\<close>

theorem full_cache_runs_statement_twice:
  assumes "session_state client = Some cs" and "cache_ok (cs_portals cs)"
    and "length (pc_entries (cs_portals cs)) = 64" and "map_of (pc_entries (cs_portals cs)) (portal_name p) = None"
    and "do_describe_portal env client p s g = Some (Inr fs, client', s', g')"
  shows "\<exists>cs'. session_state client' = Some cs' \<and> extended_do_query env client' p s' g' =
    map_option (\<lambda>(r, s'', g''). (r, client'\<lparr>session_state := Some cs'\<rparr>, s'', g''))
      (run_portal env client' cs' (portal_statement p) (Some (result_column_format p)) s' g')"
proof -
  obtain resp cache where
    i: "insert_cached (cs_portals cs) (portal_name p) \<lparr>cp_query = portal_statement p, cp_response = resp\<rparr> = Inr cache"
    and c: "client' = client\<lparr>session_state := Some (cs\<lparr>cs_portals := cache\<rparr>)\<rparr>"
    by (rule do_describe_portal_InrD [OF assms(1,5)]) (rule that)
  note l = insert_cached_lookup [OF assms(2) i]
  have n: "map_of (pc_entries cache) (portal_name p) = None" using l(2) assms(3,4) by simp
  then have "cache_remove (portal_name p) (pc_entries cache) = pc_entries cache"
    by (force simp: cache_remove_def filter_id_conv map_of_eq_None_iff)
  then have "take_cached cache (portal_name p) = Inr (None, cache)"
    using l(1) n by (simp add: take_cached_def cache_ok_def)
  then show ?thesis
    by (intro exI [of _ "cs\<lparr>cs_portals := cache\<rparr>"]) (simp add: c extended_do_query_def Let_def)
qed

text \<open>Execute serves a cached response by statement text alone: once Describe has stashed a response for a
  portal, re-binding the same statement with other result formats still returns the response encoded
  in the formats of the earlier Bind.\<close>

theorem execute_ignores_rebound_formats:
  assumes "session_state client = Some cs" and "cache_ok (cs_portals cs)"
    and "map_of (pc_entries (cs_portals cs)) (portal_name p) = Some \<lparr>cp_query = portal_statement p, cp_response = resp\<rparr>"
  shows "\<exists>client'. extended_do_query env client (p\<lparr>result_column_format := other\<rparr>) s g = Some (Inr resp, client', s, g)"
  using extended_do_query_cached [OF assms(1,2), of "p\<lparr>result_column_format := other\<rparr>" resp env s g] assms(3) by simp

theorem execute_ignores_rebound_formats_witness:
  "\<exists>client'. extended_do_query sample_pipe (sample_session (sample_cache ''SELECT n'')) (sample_portal\<lparr>result_column_format := \<lambda>_. Binary\<rparr>)
     0 init_gateway = Some (Inr (Local (Execution ''OK'')), client', 0, init_gateway)"
  by (rule execute_ignores_rebound_formats [where cs = "sample_cs (sample_cache ''SELECT n'')"])
     (simp_all add: sample_session_def sample_cs_def sample_cache_ok, simp add: sample_cache_def sample_portal_def)

text \<open>C22. A re-bound portal never gets another statement's rows: a response stashed for a different statement
  is discarded, the pipeline runs for the bound statement, and no entry for that portal remains.\<close>

theorem stale_portal_response_discarded:
  assumes "session_state client = Some cs" and "cache_ok (cs_portals cs)"
    and "map_of (pc_entries (cs_portals cs)) (portal_name p) = Some entry" and "cp_query entry \<noteq> portal_statement p"
  shows "\<exists>cache. map_of (pc_entries cache) (portal_name p) = None \<and> cache_ok cache
    \<and> extended_do_query env client p s g =
        map_option (\<lambda>(r, s', g'). (r, client\<lparr>session_state := Some (cs\<lparr>cs_portals := cache\<rparr>)\<rparr>, s', g'))
          (run_portal env client (cs\<lparr>cs_portals := cache\<rparr>) (portal_statement p) (Some (result_column_format p)) s
             (drop_response (cp_response entry) g))"
proof -
  obtain c' where "take_cached (cs_portals cs) (portal_name p) = Inr (map_of (pc_entries (cs_portals cs)) (portal_name p), c')"
    and "cache_ok c'" and "\<And>n. map_of (pc_entries c') n = (if n = portal_name p then None else map_of (pc_entries (cs_portals cs)) n)"
    by (rule take_cached_ok [OF assms(2)]) (rule that)
  with assms show ?thesis
    by (intro exI [of _ c']) (simp add: extended_do_query_def Let_def)
qed

theorem stale_portal_response_discarded_witness:
  "\<exists>client' g'. extended_do_query sample_pipe (sample_session (sample_cache ''SELECT old'')) sample_portal 0 init_gateway =
     Some (Inr (RowStream (build_pg_schema sample_columns (Some (\<lambda>_. Text))) (sample_stream (Some (\<lambda>_. Text)))), client', 2, g')"
proof -
  let ?c = "sample_cache ''SELECT old''"
  have "session_state (sample_session ?c) = Some (sample_cs ?c)" "cache_ok (cs_portals (sample_cs ?c))"
    "map_of (pc_entries (cs_portals (sample_cs ?c))) (portal_name sample_portal)
      = Some \<lparr>cp_query = ''SELECT old'', cp_response = Local (Execution ''OK'')\<rparr>"
    "cp_query \<lparr>cp_query = ''SELECT old'', cp_response = Local (Execution ''OK'')\<rparr> \<noteq> portal_statement sample_portal"
    by (simp_all add: sample_session_def sample_cs_def sample_cache_ok) (simp_all add: sample_cache_def sample_portal_def)
  from stale_portal_response_discarded [OF this, of sample_pipe 0 init_gateway] obtain cache where
    e: "extended_do_query sample_pipe (sample_session ?c) sample_portal 0 init_gateway =
        map_option (\<lambda>(r, s', g'). (r, (sample_session ?c)\<lparr>session_state := Some ((sample_cs ?c)\<lparr>cs_portals := cache\<rparr>)\<rparr>, s', g'))
          (run_portal sample_pipe (sample_session ?c) ((sample_cs ?c)\<lparr>cs_portals := cache\<rparr>) (portal_statement sample_portal)
             (Some (result_column_format sample_portal)) 0
             (drop_response (cp_response \<lparr>cp_query = ''SELECT old'', cp_response = Local (Execution ''OK'')\<rparr>) init_gateway))"
    by blast
  have "(sample_cs ?c)\<lparr>cs_portals := cache\<rparr> = sample_cs cache" "portal_statement sample_portal = ''SELECT n''"
    "result_column_format sample_portal = (\<lambda>_. Text)" by (simp_all add: sample_cs_def sample_portal_def)
  then show ?thesis unfolding e by (simp add: sample_run numeral_2_eq_2)
qed

text \<open>Describing a prepared statement that returns no rows has no side effect: whatever the statement, if
  its first statement is not a query (or the text does not parse) nothing is sent to Trino, the shared
  state is unchanged and the answer is \<open>NoData\<close>.\<close>

theorem describe_statement_without_rows_is_pure:
  assumes "case parse_sql (pe_lib env) query of Some (Query _ # _) \<Rightarrow> False | _ \<Rightarrow> True"
  shows "do_describe_statement env client query parameter_types s g = Some (Inr ([], []), s, g)"
  using assms
  by (auto simp: do_describe_statement_def Let_def returns_rows_def parsed_query_new_def no_data_def
      split: option.splits list.splits statement.splits)

theorem describe_statement_without_rows_is_pure_witness:
  "do_describe_statement sample_pipe (sample_session new_portal_cache) ''SELECT n'' [] 0 init_gateway = Some (Inr ([], []), 0, init_gateway)"
  by (rule describe_statement_without_rows_is_pure) (simp add: sample_pipe_def sample_lib_def)

text \<open>Transaction commands never reach Trino: a statement that is a transaction command in any letter case,
  with or without a final semicolon, is answered with its tag, and neither Trino nor the shared state
  is touched, whatever the parser makes of it.\<close>

theorem transaction_commands_stay_local:
  assumes "txn_tag (to_uppercase (trim (trim_end_matches (CHR '';'') (trim query)))) = Some tag" and "trim query \<noteq> []"
  shows "process_single_statement env query tc cfg slot fmt tls s g = Some (Inr [Local (Execution tag)], s, g)"
proof -
  have "try_intercept (pe_enc env) (pe_lib env) query (parsed_query_new (pe_lib env) query) (trino_catalog cfg)
      (trino_schema cfg) tls = Some (Inr [Execution tag])"
    using assms txn_tag_not_set [OF assms(1)] by (simp add: try_intercept_def Let_def)
  then show ?thesis by (simp add: process_single_statement_def Let_def map_ok_def)
qed

theorem transaction_commands_stay_local_witness:
  "process_single_statement sample_pipe '' begin work; '' sample_tc default_config (Some 0) None True 0 init_gateway
     = Some (Inr [Local (Execution ''BEGIN'')], 0, init_gateway)"
proof (rule transaction_commands_stay_local)
  show "txn_tag (to_uppercase (trim (trim_end_matches (CHR '';'') (trim '' begin work; '')))) = Some ''BEGIN''" by code_simp
  show "trim '' begin work; '' \<noteq> []" by code_simp
qed

text \<open>Statements run one after the other, all successfully.\<close>

inductive batch_runs ::
  "(str \<Rightarrow> 's \<Rightarrow> gateway \<Rightarrow> (gw_response list pg_result \<times> 's \<times> gateway) option) \<Rightarrow> str list \<Rightarrow> 's \<Rightarrow> gateway \<Rightarrow>
   gw_response list \<Rightarrow> 's \<Rightarrow> gateway \<Rightarrow> bool" for run where
  none: "batch_runs run [] s g [] s g"
| more: "run stmt s g = Some (Inr rs, s1, g1) \<Longrightarrow> batch_runs run stmts s1 g1 out s2 g2 \<Longrightarrow>
     batch_runs run (stmt # stmts) s g (rs @ out) s2 g2"

lemma process_batch_prefix:
  assumes "batch_runs (\<lambda>stmt. process_single_statement env stmt tc cfg slot fmt tls) ok s g out s1 g1"
  shows "process_batch env tc cfg slot fmt tls (ok @ rest) acc s g = process_batch env tc cfg slot fmt tls rest (acc @ out) s1 g1"
  using assms by (induction arbitrary: acc rule: batch_runs.induct) simp_all

text \<open>C26. A batch stops at its first failing statement, when the statements before it succeed. An error meant for
  the user becomes the last response: the reply is the responses of exactly the earlier statements in
  order, followed by that error. Any other error fails the whole batch: the reply is that error alone and
  the earlier responses are dropped. In both cases the statements after it are not run, and the final
  state is the one the failing statement left.\<close>

theorem batch_stops_at_first_error:
  assumes "split_statements (pe_lib env) query = ok @ bad # rest" and "rest \<noteq> [] \<or> ok \<noteq> []"
    and "batch_runs (\<lambda>stmt. process_single_statement env stmt tc cfg slot fmt tls) ok s g out s1 g1"
    and "process_single_statement env bad tc cfg slot fmt tls s1 g1 = Some (Inl e, s2, g2)"
  shows "process_query env query tc cfg slot fmt tls s g =
    Some (case e of UserError info \<Rightarrow> Inr (out @ [ErrorResponse info]) | _ \<Rightarrow> Inl e, s2, g2)"
proof -
  have "\<not> length (split_statements (pe_lib env) query) \<le> 1" using assms(1,2) by (cases ok; cases rest) auto
  then have "process_query env query tc cfg slot fmt tls s g = process_batch env tc cfg slot fmt tls (ok @ bad # rest) [] s g"
    by (simp only: process_query_def Let_def assms(1) if_False)
  also have "\<dots> = process_batch env tc cfg slot fmt tls (bad # rest) out s1 g1"
    using process_batch_prefix [OF assms(3), of "bad # rest" "[]"] by simp
  also have "\<dots> = Some (case e of UserError info \<Rightarrow> Inr (out @ [ErrorResponse info]) | _ \<Rightarrow> Inl e, s2, g2)"
    using assms(4) by (cases e) simp_all
  finally show ?thesis .
qed

text \<open>A library that reads one text as two statements, and a Trino that refuses every query.\<close>

definition sample_batch :: "nat pipe_env" where
  "sample_batch = sample_pipe\<lparr>
     pe_lib := (sample_lib [])\<lparr>parse_sql := (\<lambda>q. if q = ''b'' then Some [OtherStatement 0, OtherStatement 1] else None),
       stmt_text := (\<lambda>st. if st = OtherStatement 0 then ''BEGIN'' else ''SELECT n'')\<rparr>,
     pe_svc := (\<lambda>_. sample_service\<lparr>svc_get := (\<lambda>_ n. (Inl ''boom'', Suc n))\<rparr>)\<rparr>"

theorem batch_stops_at_first_error_witness:
  "\<exists>info. process_query sample_batch ''b'' sample_tc default_config (Some 0) None True 0 init_gateway =
     Some (Inr [Local (Execution ''BEGIN''), ErrorResponse info], 1, init_gateway)"
proof -
  let ?run = "\<lambda>stmt. process_single_statement sample_batch stmt sample_tc default_config (Some 0) None True"
  have u: "txn_tag (to_uppercase (trim (trim_end_matches (CHR '';'') (trim ''BEGIN'')))) = Some ''BEGIN''" "trim ''BEGIN'' \<noteq> []"
    by code_simp+
  then have "try_intercept enc lib ''BEGIN'' pq cat sch tls = Some (Inr [Execution ''BEGIN''])" for enc lib pq cat sch tls
    using txn_tag_not_set [OF u(1)] by (simp add: try_intercept_def Let_def)
  then have b: "?run ''BEGIN'' 0 init_gateway = Some (Inr [Local (Execution ''BEGIN'')], 0, init_gateway)"
    by (simp add: process_single_statement_def Let_def map_ok_def)
  have ok: "batch_runs ?run [''BEGIN''] 0 init_gateway ([Local (Execution ''BEGIN'')] @ []) 0 init_gateway"
    by (rule batch_runs.more [where run = ?run, OF b batch_runs.none])
  have sp: "split_statements (pe_lib sample_batch) ''b'' = [''BEGIN''] @ ''SELECT n'' # []"
    by (simp add: split_statements_def sample_batch_def)
  let ?lib = "pe_lib sample_batch"
  have pq: "parsed_query_new ?lib ''SELECT n'' = \<lparr>parsed = None\<rparr>" by (simp add: parsed_query_new_def sample_batch_def)
  have ti: "try_intercept enc ?lib ''SELECT n'' \<lparr>parsed = None\<rparr> cat sch tls = None" for enc cat sch tls
  proof -
    have "trim (trim_end_matches (CHR '';'') (trim ''SELECT n'')) = ''SELECT n''" "trim ''SELECT n'' \<noteq> []"
      "to_uppercase ''SELECT n'' = ''SELECT N''" by code_simp+
    moreover have "\<not> starts_with ''SELECT N'' ''SET ''" "txn_tag ''SELECT N'' = None" "\<not> starts_with ''SELECT N'' ''DISCARD ''"
      "\<not> starts_with ''SELECT N'' ''DEALLOCATE ''" "\<not> starts_with ''SELECT N'' ''SHOW ''" by code_simp+
    ultimately show ?thesis
      by (simp add: try_intercept_def Let_def intercept_server_functions_def is_bare_scalar_select_def bare_select_def
          references_table_def references_table_in_schema_def handle_catalog_query_def
          intercept_missing_information_schema_def list_ex_iff)
  qed
  have "?run ''SELECT n'' 0 init_gateway = Some (Inl (UserError (trino_error_to_pg ''boom'')), 1, init_gateway)"
    by (simp add: process_single_statement_def Let_def pq ti handle_dynamic_catalog_query_def references_table_def
        rewrite_info_schema_columns_def references_table_in_schema_def)
       (simp add: sample_batch_def sample_pipe_def sample_lib_def rewrite_sql_def execute_trino_query_def trino_user_error_def)
  from batch_stops_at_first_error [OF sp _ ok this] show ?thesis by simp
qed

end
