(* ===== verification/Session_Protocol.thy ===== *)
theory Session_Protocol
  imports Connection_Lifecycle Query_Pipeline
begin

text \<open>
  A connection after startup: the messages its client sends, in any order, and the row streams handed
  to the wire library, which polls and drops them in any order between and during messages. The handlers
  come from the factory of \<^verbatim>\<open>src/handler.rs\<close>, which \<^verbatim>\<open>main\<close> builds with those of \<^verbatim>\<open>src/query_simple.rs\<close> and
  \<^verbatim>\<open>src/query_extended.rs\<close>. The steps are a relation over the connection's state, the streams in flight,
  Trino's state and the shared state of the gateway. The locale \<^verbatim>\<open>session_handler\<close> is the contract of a
  handler, and each handler is an interpretation. The lemmas show that every step writes at most the
  connection's own cell and changes of its client only the session's cache.
\<close>

section \<open>Steps of a connection\<close>

record 's conn =
  cn_client :: session_client
  cn_streams :: "row_stream list"
  cn_svc :: 's
  cn_gw :: gateway

definition response_streams :: "gw_response \<Rightarrow> row_stream list" where
  "response_streams r = (case r of RowStream _ st \<Rightarrow> [st] | _ \<Rightarrow> [])"

definition reply_streams :: "gw_response list pg_result \<Rightarrow> row_stream list" where
  "reply_streams r = (case r of Inl _ \<Rightarrow> [] | Inr rs \<Rightarrow> concat (map response_streams rs))"

text \<open>
  What each handler does to a connection: its client, the streams its reply hands out, and the two
  states. \<open>None\<close> is a handler that never returns.
\<close>

type_synonym 's handler = "session_client \<Rightarrow> 's \<Rightarrow> gateway \<Rightarrow> (session_client \<times> row_stream list \<times> 's \<times> gateway) option"

definition on_simple :: "'s pipe_env \<Rightarrow> str \<Rightarrow> 's handler" where
  "on_simple env query client s g =
     map_option (\<lambda>(r, s', g'). (client, reply_streams r, s', g')) (simple_do_query env client query s g)"

definition on_describe_statement :: "'s pipe_env \<Rightarrow> str \<Rightarrow> pg_type option list \<Rightarrow> 's handler" where
  "on_describe_statement env query types client s g =
     map_option (\<lambda>(a, s', g'). (client, [], s', g')) (do_describe_statement env client query types s g)"

definition on_describe_portal :: "'s pipe_env \<Rightarrow> portal \<Rightarrow> 's handler" where
  "on_describe_portal env p client s g =
     map_option (\<lambda>(a, client', s', g'). (client', [], s', g')) (do_describe_portal env client p s g)"

definition on_execute :: "'s pipe_env \<Rightarrow> portal \<Rightarrow> 's handler" where
  "on_execute env p client s g =
     map_option (\<lambda>(r, client', s', g'). (client', reply_streams (map_ok (\<lambda>x. [x]) r), s', g')) (extended_do_query env client p s g)"

section \<open>The handlers of the gateway\<close>

text \<open>
  Model of \<^verbatim>\<open>src/handler.rs\<close>: the factory the wire library asks for its handlers. The extended handler
  serves three requests; the cancel handler is fixed by the factory's constructor.
\<close>

datatype extended_request =
    DescribeStatement str "pg_type option list" | DescribePortal portal | ExecutePortal portal

fun on_extended :: "'s pipe_env \<Rightarrow> extended_request \<Rightarrow> 's handler" where
  "on_extended env (DescribeStatement query types) = on_describe_statement env query types"
| "on_extended env (DescribePortal p) = on_describe_portal env p"
| "on_extended env (ExecutePortal p) = on_execute env p"

type_synonym start_handler =
  "wire_env \<Rightarrow> session_client \<Rightarrow> frontend_message \<Rightarrow> gateway \<Rightarrow> unit pg_result \<times> session_client \<times> gateway"

record 's handler_factory =
  startup_handler :: start_handler
  simple_query_handler :: "str \<Rightarrow> 's handler"
  extended_query_handler :: "extended_request \<Rightarrow> 's handler"
  cancel_handler :: "32 word \<Rightarrow> secret_key \<Rightarrow> gateway \<Rightarrow> (trino_client \<times> str) option"

definition new_handler_factory ::
  "start_handler \<Rightarrow> (str \<Rightarrow> 's handler) \<Rightarrow> (extended_request \<Rightarrow> 's handler) \<Rightarrow> 's handler_factory" where
  "new_handler_factory startup query extended =
     \<lparr>startup_handler = startup, simple_query_handler = query, extended_query_handler = extended,
      cancel_handler = on_cancel_request\<rparr>"

text \<open>
  A deployment: the configuration the process was started with, the libraries and the Trino service,
  the conversions of the encoder, and the Trino clients whose credentials Trino may accept.
\<close>

record 's deployment =
  dp_config :: config
  dp_pipe :: "'s pipe_env"
  dp_conv :: conv
  dp_accepts :: "trino_client \<Rightarrow> bool"

text \<open>The factory \<^verbatim>\<open>main\<close> builds: the startup handler holds the configuration.\<close>

definition main_factory :: "'s deployment \<Rightarrow> 's handler_factory" where
  "main_factory D =
     new_handler_factory (\<lambda>w. on_startup w (dp_config D)) (on_simple (dp_pipe D)) (on_extended (dp_pipe D))"

datatype client_message = SimpleQuery str | Extended extended_request

fun handle_message :: "'s handler_factory \<Rightarrow> client_message \<Rightarrow> 's handler" where
  "handle_message fac (SimpleQuery query) = simple_query_handler fac query"
| "handle_message fac (Extended r) = extended_query_handler fac r"

inductive session_step :: "'s deployment \<Rightarrow> 's conn \<Rightarrow> 's conn \<Rightarrow> bool" for D where
  message: "handle_message (main_factory D) m (cn_client c) (cn_svc c) (cn_gw c) = Some (client', sts, s', g') \<Longrightarrow>
     session_step D c
       (c\<lparr>cn_client := client', cn_streams := sts @ cn_streams c, cn_svc := s', cn_gw := g'\<rparr>)"
| poll: "i < length (cn_streams c) \<Longrightarrow> session_state (cn_client c) = Some cs \<Longrightarrow>
     stream_next (dp_conv D) (pe_enc (dp_pipe D)) (pe_svc (dp_pipe D) (cs_trino_client cs)) (cn_streams c ! i) (cn_svc c) (cn_gw c)
       = Some (item, st', s', g') \<Longrightarrow>
     session_step D c (c\<lparr>cn_streams := (cn_streams c)[i := st'], cn_svc := s', cn_gw := g'\<rparr>)"
| discard: "i < length (cn_streams c) \<Longrightarrow>
     session_step D c
       (c\<lparr>cn_streams := take i (cn_streams c) @ drop (Suc i) (cn_streams c), cn_gw := drop_stream (cn_streams c ! i) (cn_gw c)\<rparr>)"

section \<open>The invariant of a session\<close>

text \<open>
  The connection's state is the one of startup but for its portal cache; the cache is in order, and all
  streams, stashed or in flight, carry the connection's own cell; the stashed ones are unread.
\<close>

definition own_response :: "slot \<Rightarrow> gw_response \<Rightarrow> bool" where
  "own_response c r \<longleftrightarrow> (\<forall>st \<in> set (response_streams r). rs_slot st = Some c \<and> \<not> rs_started st)"

definition own_cache :: "slot \<Rightarrow> gw_response portal_cache \<Rightarrow> bool" where
  "own_cache c cache \<longleftrightarrow> cache_ok cache \<and> (\<forall>(_, e) \<in> set (pc_entries cache). own_response c (cp_response e))"

definition session_ok :: "gw_response connection_state \<Rightarrow> 's conn \<Rightarrow> bool" where
  "session_ok st0 c \<longleftrightarrow>
     (\<exists>cache. session_state (cn_client c) = Some (st0\<lparr>cs_portals := cache\<rparr>) \<and> own_cache (cs_active_query_id st0) cache)
   \<and> (\<forall>st \<in> set (cn_streams c). rs_slot st = Some (cs_active_query_id st0))"

text \<open>A change of the shared state that writes at most one cell.\<close>

definition own_write :: "slot \<Rightarrow> gateway \<Rightarrow> gateway \<Rightarrow> bool" where
  "own_write c g g' \<longleftrightarrow> (\<exists>x. g' = set_active_query_id (Some c) x g)"

lemma own_write_refl [simp]: "own_write c g g"
  unfolding own_write_def by (rule exI [of _ "slots g c"]) (simp add: set_active_query_id_def)

lemma own_write_set [simp]: "own_write c g (set_active_query_id (Some c) x g)"
  by (auto simp: own_write_def)

lemma own_write_trans [trans]: "own_write c g g' \<Longrightarrow> own_write c g' g'' \<Longrightarrow> own_write c g g''"
  by (auto simp: own_write_def set_active_query_id_def)

lemma own_write_frame:
  "own_write c g g' \<Longrightarrow> registry g' = registry g \<and> (\<forall>d. d \<noteq> c \<longrightarrow> slots g' d = slots g d)"
  by (auto simp: own_write_def set_active_query_id_def)

lemma own_write_drop: "rs_slot st = Some c \<Longrightarrow> own_write c g (drop_stream st g)"
  by (simp add: drop_stream_def)

lemma drop_response_own: "own_response c r \<Longrightarrow> drop_response r g = g"
  by (auto simp: own_response_def response_streams_def drop_response_def drop_stream_def split: gw_response.splits)

lemma own_write_drop_response: "own_response c r \<Longrightarrow> own_write c g (drop_response r g)"
  by (simp add: drop_response_own)

lemma own_write_drop_all: "list_all (own_response c) rs \<Longrightarrow> fold drop_response rs g = g"
  by (induction rs) (simp_all add: drop_response_own [of c])

section \<open>The pipeline writes the own cell only\<close>

lemma execute_own:
  assumes "execute_trino_query svc sql (Some c) fmt s g = Some (r, s', g')"
  shows "own_write c g g'"
proof -
  obtain a s1 where a: "svc_get svc sql s = (a, s1)" by (cases "svc_get svc sql s")
  show ?thesis
  proof (cases a)
    case (Inl e)
    with assms a show ?thesis by (simp add: execute_trino_query_def)
  next
    case (Inr res)
    with assms a show ?thesis
      by (auto simp: execute_trino_query_def Let_def own_write_def set_active_query_id_def
          split: option.splits bind_splits sum.splits prod.splits dest!: poll_columns_slot)
  qed
qed

lemma single_statement_own:
  assumes "process_single_statement env query tc cfg (Some c) fmt tls s g = Some (r, s', g')"
  shows "own_write c g g' \<and> (\<forall>rs. r = Inr rs \<longrightarrow> list_all (own_response c) rs)"
proof -
  let ?lib = "pe_lib env" and ?pq = "parsed_query_new (pe_lib env) query"
  let ?sql = "rewrite_sql ?lib (case rewrite_info_schema_columns ?lib query ?pq of Some q \<Rightarrow> q | None \<Rightarrow> query)"
  let ?ex = "execute_trino_query (pe_svc env tc) ?sql (Some c) fmt s g"
  consider "g' = g" "\<forall>rs. r = Inr rs \<longrightarrow> (\<forall>x \<in> set rs. response_streams x = [])"
    | e where "?ex = Some (Inl e, s', g')" "r = Inl e"
    | schema st g1 where "?ex = Some (Inr (schema, st), s', g1)" "r = Inr [Local (Execution ''OK'')]" "g' = drop_stream st g1"
    | schema st where "?ex = Some (Inr (schema, st), s', g')" "r = Inr [RowStream schema st]"
    using assms
    by (auto simp: process_single_statement_def Let_def map_ok_def response_streams_def
        split: option.splits bind_splits sum.splits if_splits)
  then show ?thesis
  proof cases
    case 1
    then show ?thesis by (auto simp: own_response_def list_all_iff)
  next
    case (2 e)
    then show ?thesis using execute_own [OF 2(1)] by simp
  next
    case (3 schema st g1)
    have "g' = g1" using 3 by (auto simp: drop_stream_def elim: execute_Inr_stream)
    with execute_own [OF 3(1)] 3 show ?thesis by (simp add: own_response_def response_streams_def)
  next
    case (4 schema st)
    with execute_own [OF 4(1)] show ?thesis
      by (auto simp: own_response_def response_streams_def elim: execute_Inr_stream)
  qed
qed

lemma batch_own:
  assumes "process_batch env tc cfg (Some c) fmt tls stmts out s g = Some (r, s', g')" and "list_all (own_response c) out"
  shows "own_write c g g' \<and> (\<forall>rs. r = Inr rs \<longrightarrow> list_all (own_response c) rs)"
  using assms
proof (induction stmts arbitrary: out s g)
  case (Cons stmt stmts)
  obtain r1 s1 g1 where one: "process_single_statement env stmt tc cfg (Some c) fmt tls s g = Some (r1, s1, g1)"
    using Cons.prems by (auto split: bind_splits)
  note first = single_statement_own [OF one]
  show ?case
  proof (cases r1)
    case (Inl e)
    with Cons.prems one first show ?thesis by (cases e) (auto simp: own_response_def response_streams_def)
  next
    case (Inr rs)
    with Cons.prems one have "process_batch env tc cfg (Some c) fmt tls stmts (out @ rs) s1 g1 = Some (r, s', g')" by simp
    from Cons.IH [OF this] first Cons.prems(2) Inr show ?thesis using own_write_trans by auto
  qed
qed auto

lemma process_query_own:
  assumes "process_query env query tc cfg (Some c) fmt tls s g = Some (r, s', g')"
  shows "own_write c g g' \<and> (\<forall>rs. r = Inr rs \<longrightarrow> list_all (own_response c) rs)"
proof (cases "length (split_statements (pe_lib env) query) \<le> 1")
  case True
  with assms show ?thesis by (intro single_statement_own) (simp add: process_query_def)
next
  case False
  with assms show ?thesis by (intro batch_own [where out = "[]"]) (simp_all add: process_query_def)
qed

lemma run_portal_own:
  assumes "run_portal env client cs query fmt s g = Some (r, s', g')"
  shows "own_write (cs_active_query_id cs) g g' \<and> (\<forall>x. r = Inr x \<longrightarrow> own_response (cs_active_query_id cs) x)"
proof -
  obtain r1 s1 g1 where q: "process_query env query (cs_trino_client cs) (cs_config cs) (Some (cs_active_query_id cs)) fmt
      (is_secure client) s g = Some (r1, s1, g1)" and f: "first_response (r1, s1, g1) = (r, s', g')"
    using assms by (auto simp: run_portal_def)
  note o = process_query_own [OF q]
  show ?thesis
  proof (cases r1)
    case (Inl e)
    with f o show ?thesis by (auto simp: first_response_def)
  next
    case (Inr rs)
    show ?thesis
    proof (cases rs)
      case Nil
      with Inr f o show ?thesis by (auto simp: first_response_def)
    next
      case (Cons x xs)
      with Inr f o own_write_drop_all [of "cs_active_query_id cs" xs g1] show ?thesis
        by (auto simp: first_response_def)
    qed
  qed
qed

section \<open>The handlers keep the invariant\<close>

lemma own_cache_take:
  assumes "own_cache c cache" and "take_cached cache name = Inr (e, cache')"
  shows "own_cache c cache' \<and> (\<forall>x. e = Some x \<longrightarrow> own_response c (cp_response x))"
proof -
  have "cache_ok cache" using assms(1) by (simp add: own_cache_def)
  from take_cached_ok [OF this, of name] obtain c' where
    t: "take_cached cache name = Inr (map_of (pc_entries cache) name, c')" "cache_ok c'" by blast
  with assms(2) have c': "c' = cache'" "e = map_of (pc_entries cache) name" by simp_all
  have "pc_entries cache' = cache_remove name (pc_entries cache)"
    using assms(2) by (auto simp: take_cached_def split: if_splits)
  then have "set (pc_entries cache') \<subseteq> set (pc_entries cache)" by (auto simp: cache_remove_def)
  with assms(1) t c' show ?thesis by (fastforce simp: own_cache_def dest: map_of_SomeD)
qed

lemma own_cache_insert:
  assumes "own_cache c cache" and "insert_cached cache name e = Inr cache'" and "own_response c (cp_response e)"
  shows "own_cache c cache'"
proof -
  have "cache_ok cache'" using assms(1,2) insert_cached_lookup(1) by (auto simp: own_cache_def)
  moreover have "set (pc_entries cache') \<subseteq> insert (name, e) (set (pc_entries cache))"
    using assms(2) by (auto simp: insert_cached_def cache_insert_def split: if_splits)
  ultimately show ?thesis using assms(1,3) by (fastforce simp: own_cache_def)
qed

text \<open>A handler's result: the session's state up to its cache, and the own cell.\<close>

definition own_result :: "gw_response connection_state \<Rightarrow> gateway \<Rightarrow> session_client \<Rightarrow> gateway \<Rightarrow> bool" where
  "own_result st0 g client' g' \<longleftrightarrow> own_write (cs_active_query_id st0) g g'
     \<and> (\<exists>cache. session_state client' = Some (st0\<lparr>cs_portals := cache\<rparr>) \<and> own_cache (cs_active_query_id st0) cache)"

lemma simple_own:
  assumes "session_state client = Some (st0\<lparr>cs_portals := cache\<rparr>)" and "simple_do_query env client query s g = Some (r, s', g')"
  shows "own_write (cs_active_query_id st0) g g' \<and> (\<forall>st \<in> set (reply_streams r). rs_slot st = Some (cs_active_query_id st0))"
  using assms process_query_own [of env query "cs_trino_client st0" "cs_config st0" "cs_active_query_id st0" None "is_secure client" s g r s' g']
  by (auto simp: simple_do_query_def reply_streams_def own_response_def list_all_iff split: sum.splits)

lemma describe_statement_own:
  assumes "session_state client = Some (st0\<lparr>cs_portals := cache\<rparr>)" and "do_describe_statement env client query types s g = Some (a, s', g')"
  shows "own_write (cs_active_query_id st0) g g'"
proof (cases "returns_rows (parsed_query_new (pe_lib env) query)")
  case True
  with assms obtain r s1 g1 where r: "run_portal env client (st0\<lparr>cs_portals := cache\<rparr>) query None s g = Some (r, s1, g1)"
    by (auto simp: do_describe_statement_def Let_def)
  with True assms have "g' = (case r of Inl _ \<Rightarrow> g1 | Inr x \<Rightarrow> drop_response x g1)"
    by (cases r) (auto simp: do_describe_statement_def Let_def)
  with run_portal_own [OF r] show ?thesis
    by (auto split: sum.splits intro: own_write_trans own_write_drop_response)
qed (use assms in \<open>simp add: do_describe_statement_def\<close>)

lemma describe_portal_own:
  assumes "session_state client = Some (st0\<lparr>cs_portals := cache\<rparr>)" and "own_cache (cs_active_query_id st0) cache"
    and "do_describe_portal env client p s g = Some (a, client', s', g')"
  shows "own_result st0 g client' g'"
proof -
  let ?cs = "st0\<lparr>cs_portals := cache\<rparr>" and ?c = "cs_active_query_id st0"
  obtain r s1 g1 where r: "run_portal env client ?cs (portal_statement p) (Some (result_column_format p)) s g = Some (r, s1, g1)"
    using assms(1,3) by (auto simp: do_describe_portal_def)
  note o = run_portal_own [OF r]
  show ?thesis
  proof (cases r)
    case (Inl e)
    with assms r o show ?thesis by (auto simp: do_describe_portal_def own_result_def)
  next
    case (Inr resp)
    let ?e = "\<lparr>cp_query = portal_statement p, cp_response = resp\<rparr>"
    have resp: "own_write ?c g g1" "own_response ?c resp" using o Inr by simp_all
    have old: "own_response ?c (cp_response e)" if "map_of (pc_entries cache) (portal_name p) = Some e" for e
      using assms(2) map_of_SomeD [OF that] by (auto simp: own_cache_def)
    show ?thesis
    proof (cases "insert_cached cache (portal_name p) ?e")
      case (Inl e)
      with assms r resp \<open>r = Inr resp\<close> show ?thesis
        by (auto simp: do_describe_portal_def own_result_def Let_def intro: own_write_trans own_write_drop_response)
    next
      case i: (Inr cache')
      have "own_cache ?c cache'" by (rule own_cache_insert [OF assms(2) i]) (simp add: resp)
      with assms r resp \<open>r = Inr resp\<close> i old show ?thesis
        by (auto simp: do_describe_portal_def own_result_def Let_def
            intro!: own_write_trans [OF resp(1)] own_write_drop_response split: option.split)
    qed
  qed
qed

lemma execute_portal_own:
  assumes "session_state client = Some (st0\<lparr>cs_portals := cache\<rparr>)" and "own_cache (cs_active_query_id st0) cache"
    and "extended_do_query env client p s g = Some (r, client', s', g')"
  shows "own_result st0 g client' g' \<and> (\<forall>x. r = Inr x \<longrightarrow> own_response (cs_active_query_id st0) x)"
proof -
  let ?c = "cs_active_query_id st0"
  obtain e cache' where t: "take_cached cache (portal_name p) = Inr (e, cache')"
    using assms(2) take_cached_ok [of cache "portal_name p"] by (metis own_cache_def)
  note o = own_cache_take [OF assms(2) t]
  let ?cs = "st0\<lparr>cs_portals := cache'\<rparr>" and ?client = "client\<lparr>session_state := Some (st0\<lparr>cs_portals := cache'\<rparr>)\<rparr>"
  consider x where "e = Some x" "r = Inr (cp_response x)" "client' = ?client" "g' = g"
    | g0 where "own_write ?c g g0" "client' = ?client"
        "run_portal env client ?cs (portal_statement p) (Some (result_column_format p)) s g0 = Some (r, s', g')"
  proof (cases e)
    case None
    with assms t that(2) [of g] show thesis by (auto simp: extended_do_query_def Let_def)
  next
    case (Some x)
    with o have "own_write ?c g (drop_response (cp_response x) g)" by (simp add: own_write_drop_response)
    with Some assms t that show thesis by (auto simp: extended_do_query_def Let_def split: if_splits)
  qed
  then show ?thesis
  proof cases
    case (1 x)
    with o show ?thesis by (auto simp: own_result_def)
  next
    case (2 g0)
    from run_portal_own [OF 2(3)] o 2 show ?thesis by (auto simp: own_result_def intro: own_write_trans)
  qed
qed

lemma stream_next_own:
  assumes "stream_next cv enc svc st s g = Some (item, st', s', g')" and "rs_slot st = Some c"
  shows "own_write c g g' \<and> rs_slot st' = Some c"
proof (cases "rs_done st")
  case True
  with assms show ?thesis by (simp add: stream_next.simps)
next
  case False
  from stream_next_guard [OF assms(1) False] assms(2) show ?thesis by (auto split: if_splits)
qed

section \<open>The contract of a handler\<close>

text \<open>
  The interface between the wire library's message loop and the handlers: whatever a handler does, the
  session's state changes in its cache only, the streams it hands out are the connection's own, and the
  shared state changes in the connection's own cell only. All handlers meet it.
\<close>

locale session_handler =
  fixes handle :: "'s handler"
  assumes handle_own: "session_state client = Some (st0\<lparr>cs_portals := cache\<rparr>) \<Longrightarrow> own_cache (cs_active_query_id st0) cache \<Longrightarrow>
    handle client s g = Some (client', sts, s', g') \<Longrightarrow>
    own_result st0 g client' g' \<and> (\<forall>st \<in> set sts. rs_slot st = Some (cs_active_query_id st0))"
begin

lemma keeps_session:
  assumes "session_ok st0 c" and "handle (cn_client c) (cn_svc c) (cn_gw c) = Some (client', sts, s', g')"
  shows "session_ok st0 (c\<lparr>cn_client := client', cn_streams := sts @ cn_streams c, cn_svc := s', cn_gw := g'\<rparr>)
    \<and> own_write (cs_active_query_id st0) (cn_gw c) g'"
proof -
  obtain cache where "session_state (cn_client c) = Some (st0\<lparr>cs_portals := cache\<rparr>)" "own_cache (cs_active_query_id st0) cache"
    using assms(1) by (auto simp: session_ok_def)
  from handle_own [OF this assms(2)] assms(1) show ?thesis by (auto simp: own_result_def session_ok_def)
qed

end

interpretation simple: session_handler "on_simple env query" for env query
  by unfold_locales (auto simp: on_simple_def own_result_def dest!: simple_own [rotated])

interpretation describe_statement: session_handler "on_describe_statement env query types" for env query types
  by unfold_locales (auto simp: on_describe_statement_def own_result_def dest!: describe_statement_own [rotated])

interpretation describe_portal: session_handler "on_describe_portal env p" for env p
  by unfold_locales (auto simp: on_describe_portal_def dest!: describe_portal_own [rotated 2])

interpretation execute: session_handler "on_execute env p" for env p
  by unfold_locales
     (auto simp: on_execute_def reply_streams_def map_ok_def own_response_def split: sum.splits dest!: execute_portal_own [rotated 2])

interpretation extended: session_handler "on_extended env r" for env r
  by (cases r) (simp_all add: describe_statement.session_handler_axioms describe_portal.session_handler_axioms
      execute.session_handler_axioms)

interpretation factory: session_handler "handle_message (main_factory D) m" for D m
  by (cases m) (simp_all add: main_factory_def new_handler_factory_def simple.session_handler_axioms
      extended.session_handler_axioms)

lemma session_step_own:
  assumes "session_step D c c'" and "session_ok st0 c"
  shows "session_ok st0 c' \<and> own_write (cs_active_query_id st0) (cn_gw c) (cn_gw c')"
  using assms(1)
proof cases
  case (message m client' sts s' g')
  from factory.keeps_session [OF assms(2) message(2)] show ?thesis by (simp add: message(1))
next
  case (poll i cs item st' s' g')
  have "rs_slot (cn_streams c ! i) = Some (cs_active_query_id st0)" using assms(2) poll(2) by (simp add: session_ok_def)
  from stream_next_own [OF poll(4) this] assms(2) poll(1) show ?thesis
    by (auto simp: session_ok_def dest!: set_update_subset_insert [THEN subsetD])
next
  case (discard i)
  have "rs_slot (cn_streams c ! i) = Some (cs_active_query_id st0)" using assms(2) discard(2) by (simp add: session_ok_def)
  from own_write_drop [OF this] assms(2) discard(1) show ?thesis
    by (auto simp: session_ok_def dest: in_set_takeD in_set_dropD)
qed

text \<open>The handlers touch nothing of the client but its session's state.\<close>

lemma client_self [simp]: "\<exists>x. (client :: session_client) = client\<lparr>session_state := x\<rparr>"
  by (rule exI [of _ "session_state client"]) simp

lemma describe_portal_keeps_client:
  assumes "do_describe_portal env client p s g = Some (a, client', s', g')"
  shows "\<exists>x. client' = client\<lparr>session_state := x\<rparr>"
proof (cases "session_state client")
  case None
  with assms show ?thesis by (auto simp: do_describe_portal_def)
next
  case (Some cs)
  with assms obtain r s1 g1 where
    r: "run_portal env client cs (portal_statement p) (Some (result_column_format p)) s g = Some (r, s1, g1)"
    by (auto simp: do_describe_portal_def)
  show ?thesis
  proof (cases r)
    case (Inr resp)
    with Some r assms show ?thesis
      by (cases "insert_cached (cs_portals cs) (portal_name p) \<lparr>cp_query = portal_statement p, cp_response = resp\<rparr>")
         (auto simp: do_describe_portal_def Let_def)
  qed (use Some r assms in \<open>auto simp: do_describe_portal_def\<close>)
qed

lemma execute_portal_keeps_client:
  "extended_do_query env client p s g = Some (r, client', s', g') \<Longrightarrow> \<exists>x. client' = client\<lparr>session_state := x\<rparr>"
  by (auto simp: extended_do_query_def Let_def split: option.splits sum.splits if_splits)

lemma factory_keeps_client:
  assumes "handle_message (main_factory D) m client s g = Some (client', sts, s', g')"
  shows "\<exists>x. client' = client\<lparr>session_state := x\<rparr>"
proof (cases m)
  case (SimpleQuery q)
  with assms show ?thesis by (auto simp: main_factory_def new_handler_factory_def on_simple_def)
next
  case (Extended r)
  with assms show ?thesis
    by (cases r) (auto simp: main_factory_def new_handler_factory_def on_describe_statement_def on_describe_portal_def
        on_execute_def dest: describe_portal_keeps_client execute_portal_keeps_client)
qed

lemma session_step_keeps_client:
  assumes "session_step D c c'"
  shows "\<exists>x. cn_client c' = (cn_client c)\<lparr>session_state := x\<rparr>"
  using assms
proof cases
  case (message m client' sts s' g')
  then show ?thesis using factory_keeps_client by fastforce
qed (auto intro: exI [of _ "session_state (cn_client c)"])

end
