(* ===== verification/Server.thy ===== *)
theory Server
  imports Startup "HOL-Library.Multiset"
begin

text \<open>
  Model of \<^verbatim>\<open>src/server.rs\<close> (the accept loop with its connection limit), \<^verbatim>\<open>src/tls.rs\<close> (loading the
  certificate and key) and \<^verbatim>\<open>src/main.rs\<close> (the decisions before serving, the drain timeout and the
  drain). Sockets, the TLS library and the clock are parameters; of the log lines only the one of a joined
  task is modelled.
\<close>

section \<open>TLS acceptor\<close>

text \<open>An \<^verbatim>\<open>anyhow\<close> error is its chain of messages, outermost context first.\<close>

type_synonym anyhow = "str list"

text \<open>
  The TLS library: the PEM items of a certificate file (opening may fail, each item may fail to
  parse), the private key of a key file, the protocol-version check and the key pair check.
\<close>

record ('c, 'k, 'a) tls_lib =
  pem_file_iter :: "str \<Rightarrow> str + (str + 'c) list"
  pem_key_file :: "str \<Rightarrow> str + 'k"
  protocol_versions_error :: "str option"
  with_single_cert :: "'c list \<Rightarrow> 'k \<Rightarrow> str + 'a"

text \<open>\<open>collect::<Result<Vec<_>, _>>\<close> stops at the first error.\<close>

fun collect_results :: "(str + 'c) list \<Rightarrow> str + 'c list" where
  "collect_results [] = Inr []"
| "collect_results (x # xs) =
     (case x of
        Inl e \<Rightarrow> Inl e
      | Inr c \<Rightarrow> (case collect_results xs of Inl e \<Rightarrow> Inl e | Inr cs \<Rightarrow> Inr (c # cs)))"

definition load_certs :: "('c, 'k, 'a) tls_lib \<Rightarrow> str \<Rightarrow> anyhow + 'c list" where
  "load_certs lib path =
     (case pem_file_iter lib path of
        Inl e \<Rightarrow> Inl [''opening TLS certificate file '' @ path, e]
      | Inr items \<Rightarrow>
          (case collect_results items of
             Inl e \<Rightarrow> Inl [''reading TLS certificate PEM '' @ path, e]
           | Inr certs \<Rightarrow>
               if certs = [] then Inl [''no PEM certificates found in '' @ path] else Inr certs))"

definition load_key :: "('c, 'k, 'a) tls_lib \<Rightarrow> str \<Rightarrow> anyhow + 'k" where
  "load_key lib path =
     (case pem_key_file lib path of
        Inl e \<Rightarrow> Inl [''reading TLS private key PEM '' @ path, e]
      | Inr k \<Rightarrow> Inr k)"

definition build_acceptor :: "('c, 'k, 'a) tls_lib \<Rightarrow> str \<Rightarrow> str \<Rightarrow> anyhow + 'a" where
  "build_acceptor lib cert_path key_path =
     (case load_certs lib cert_path of
        Inl e \<Rightarrow> Inl e
      | Inr certs \<Rightarrow>
          (case load_key lib key_path of
             Inl e \<Rightarrow> Inl e
           | Inr key \<Rightarrow>
               (case protocol_versions_error lib of
                  Some e \<Rightarrow> Inl [''rustls: invalid protocol-version configuration'', e]
                | None \<Rightarrow>
                    (case with_single_cert lib certs key of
                       Inl e \<Rightarrow> Inl [''TLS keypair invalid (cert '' @ cert_path @ '', key '' @ key_path @ '')'', e]
                     | Inr cfg \<Rightarrow> Inr cfg))))"

section \<open>The accept loop\<close>

text \<open>
  The semaphore's free permits and the tracked tasks: running ones hold a permit; a task that has
  dropped its permit is \<open>exiting\<close> until it can be joined (\<open>finished\<close>). \<open>spawned\<close>, \<open>reaped\<close> and
  \<open>refused\<close> count.
\<close>

datatype serve_phase = Accepting | ShutDown | AcceptFailed str

record server =
  sphase :: serve_phase
  permits :: nat
  running :: "nat list"
  exiting :: "nat list"
  finished :: "nat list"
  spawned :: nat
  reaped :: nat
  refused :: nat

definition init_server :: "nat \<Rightarrow> server" where
  "init_server max_conn = \<lparr>sphase = Accepting, permits = max_conn, running = [], exiting = [], finished = [],
     spawned = 0, reaped = 0, refused = 0\<rparr>"

text \<open>
  One turn of the biased \<open>select!\<close>: shutdown first, then a task that can be joined, then the
  listener (\<open>None\<close> when no connection is pending).
\<close>

definition serve_poll :: "bool \<Rightarrow> (str + unit) option \<Rightarrow> server \<Rightarrow> server" where
  "serve_poll shutdown_ready accept s =
     (if shutdown_ready then s\<lparr>sphase := ShutDown\<rparr>
      else case finished s of
        t # ts \<Rightarrow> s\<lparr>finished := ts, reaped := Suc (reaped s)\<rparr>
      | [] \<Rightarrow>
          (case accept of
             None \<Rightarrow> s
           | Some (Inl e) \<Rightarrow> s\<lparr>sphase := AcceptFailed e\<rparr>
           | Some (Inr _) \<Rightarrow>
               if permits s = 0 then s\<lparr>refused := Suc (refused s)\<rparr>
               else s\<lparr>permits := permits s - 1, running := spawned s # running s, spawned := Suc (spawned s)\<rparr>))"

text \<open>A connection task ends: it drops its permit, later it becomes joinable.\<close>

definition task_exit :: "nat \<Rightarrow> server \<Rightarrow> server" where
  "task_exit t s = s\<lparr>running := remove1 t (running s), permits := Suc (permits s), exiting := t # exiting s\<rparr>"

definition task_done :: "nat \<Rightarrow> server \<Rightarrow> server" where
  "task_done t s = s\<lparr>exiting := remove1 t (exiting s), finished := finished s @ [t]\<rparr>"

inductive serve_step :: "server \<Rightarrow> server \<Rightarrow> bool" where
  poll: "sphase s = Accepting \<Longrightarrow> serve_step s (serve_poll sd acc s)"
| exits: "t \<in> set (running s) \<Longrightarrow> serve_step s (task_exit t s)"
| joinable: "t \<in> set (exiting s) \<Longrightarrow> serve_step s (task_done t s)"

inductive serve_reach :: "nat \<Rightarrow> server \<Rightarrow> bool" for max_conn where
  start: "serve_reach max_conn (init_server max_conn)"
| step: "serve_reach max_conn s \<Longrightarrow> serve_step s s' \<Longrightarrow> serve_reach max_conn s'"

inductive_cases serve_stepE [elim!]: "serve_step s s'"

text \<open>
  The log line of a joined task, if any. The runtime's error says whether the task panicked or was
  cancelled; no other failure exists, so that exactly the panics are reported.
\<close>

record join_error =
  is_panic :: bool
  is_cancelled :: bool

definition log_task_result :: "join_error + unit \<Rightarrow> str option" where
  "log_task_result res =
     (case res of
        Inl e \<Rightarrow>
          (if is_panic e then Some ''connection task panicked''
           else if \<not> is_cancelled e then Some ''connection task failed''
           else None)
      | Inr _ \<Rightarrow> None)"

section \<open>Before serving\<close>

datatype start_error = PolicyFailed policy_error | TlsFailed anyhow | MaxConnectionsZero | IoFailed str

definition DEFAULT_SHUTDOWN_DRAIN_TIMEOUT :: nat where "DEFAULT_SHUTDOWN_DRAIN_TIMEOUT = 25"

definition ABORT_UNWIND_GRACE :: nat where "ABORT_UNWIND_GRACE = 1"

definition parse_drain_timeout :: "str option \<Rightarrow> nat" where
  "parse_drain_timeout raw =
     (case raw of
        None \<Rightarrow> DEFAULT_SHUTDOWN_DRAIN_TIMEOUT
      | Some v \<Rightarrow> (case parse_u64 v of Some secs \<Rightarrow> secs | None \<Rightarrow> DEFAULT_SHUTDOWN_DRAIN_TIMEOUT))"

definition SHUTDOWN_DRAIN_TIMEOUT_ENV :: str where
  "SHUTDOWN_DRAIN_TIMEOUT_ENV = ''GATEWAY_SHUTDOWN_DRAIN_TIMEOUT_SECS''"

text \<open>\<open>std::env::var(..).ok()\<close> is the parameter: the value of a variable, if it is set to valid text.\<close>

definition drain_timeout_from_env :: "(str \<Rightarrow> str option) \<Rightarrow> nat" where
  "drain_timeout_from_env env_var = parse_drain_timeout (env_var SHUTDOWN_DRAIN_TIMEOUT_ENV)"

record 'a started =
  st_acceptor :: "'a option"
  st_drain_timeout :: nat
  st_max_connections :: nat

text \<open>
  The parameters of the run: the resolver, the TLS library, the variables of the environment, the
  outcomes of binding the listener and of installing the signal handler.
\<close>

definition main_start ::
  "resolver \<Rightarrow> ('c, 'k, 'a) tls_lib \<Rightarrow> (str \<Rightarrow> str option) \<Rightarrow> (str \<Rightarrow> str option) \<Rightarrow> str option \<Rightarrow> config \<Rightarrow>
   start_error + 'a started" where
  "main_start resolve lib env_var bind_error signal_error cfg =
     (case validate resolve cfg of
        Inl e \<Rightarrow> Inl (PolicyFailed e)
      | Inr _ \<Rightarrow>
          (let drain_timeout = drain_timeout_from_env env_var;
               acceptor = (case (tls_cert cfg, tls_key cfg) of
                             (Some cert, Some key) \<Rightarrow>
                               (case build_acceptor lib cert key of Inl e \<Rightarrow> Inl e | Inr a \<Rightarrow> Inr (Some a))
                           | (None, None) \<Rightarrow> Inr None
                           | (Some _, None) \<Rightarrow> Inr None
                           | (None, Some _) \<Rightarrow> Inr None)
           in case acceptor of
                Inl e \<Rightarrow> Inl (TlsFailed e)
              | Inr tls_acceptor \<Rightarrow>
                  if max_connections cfg = 0 then Inl MaxConnectionsZero
                  else (case bind_error (listen_addr cfg) of
                          Some e \<Rightarrow> Inl (IoFailed e)
                        | None \<Rightarrow>
                            (case signal_error of
                               Some e \<Rightarrow> Inl (IoFailed e)
                             | None \<Rightarrow>
                                 Inr \<lparr>st_acceptor = tls_acceptor, st_drain_timeout = drain_timeout,
                                      st_max_connections = max_connections cfg\<rparr>))))"

section \<open>Draining\<close>

text \<open>
  The runtime tells when tasks can be joined: the second, the task and its result, in the order in which
  \<open>join_next\<close> returns them. A timed loop joins tasks until none is left or the deadline passes; \<open>timeout\<close>
  polls the loop before the clock, so a task that is joinable at the deadline is still joined. The
  result is the second at which the loop is left, the tasks that remain and the lines logged.
\<close>

record join_event =
  ev_time :: nat
  ev_task :: nat
  ev_result :: "join_error + unit"

definition log_lines :: "join_error + unit \<Rightarrow> str list" where
  "log_lines res = (case log_task_result res of Some l \<Rightarrow> [l] | None \<Rightarrow> [])"

fun join_until :: "nat \<Rightarrow> nat \<Rightarrow> nat list \<Rightarrow> join_event list \<Rightarrow> nat \<times> nat list \<times> str list" where
  "join_until deadline now tasks evs =
     (if tasks = [] then (now, [], [])
      else case evs of
             [] \<Rightarrow> (deadline, tasks, [])
           | e # es \<Rightarrow>
               if deadline < ev_time e then (deadline, tasks, [])
               else (case join_until deadline (max now (ev_time e)) (remove1 (ev_task e) tasks) es of
                       (secs, left, logs) \<Rightarrow> (secs, left, log_lines (ev_result e) @ logs)))"

declare join_until.simps [simp del]

text \<open>
  The drain: the first loop runs against the timeout; what it leaves is aborted, and a second loop
  waits for the aborted tasks to unwind. The runtime's events before and after the abort are its
  parameters.
\<close>

record drained =
  dr_secs :: nat
  dr_aborted :: "nat list"
  dr_left :: "nat list"
  dr_logs :: "str list"

definition drain :: "nat list \<Rightarrow> nat \<Rightarrow> join_event list \<Rightarrow> join_event list \<Rightarrow> drained" where
  "drain tasks timeout ends unwinds =
     (if tasks = [] then \<lparr>dr_secs = 0, dr_aborted = [], dr_left = [], dr_logs = []\<rparr>
      else case join_until timeout 0 tasks ends of
             (secs, still_running, logs) \<Rightarrow>
               if still_running \<noteq> [] then
                 (case join_until (timeout + ABORT_UNWIND_GRACE) timeout still_running unwinds of
                    (secs', left, logs') \<Rightarrow>
                      \<lparr>dr_secs = secs', dr_aborted = still_running, dr_left = left, dr_logs = logs @ logs'\<rparr>)
               else \<lparr>dr_secs = secs, dr_aborted = [], dr_left = [], dr_logs = logs\<rparr>)"

text \<open>
  The end of \<^verbatim>\<open>main\<close>: still serving (\<open>None\<close>), a failed listener, or the drain of the tasks the accept loop
  handed over.
\<close>

definition main_finish ::
  "'a started \<Rightarrow> join_event list \<Rightarrow> join_event list \<Rightarrow> server \<Rightarrow> (start_error + drained) option" where
  "main_finish st ends unwinds s =
     (case sphase s of
        Accepting \<Rightarrow> None
      | AcceptFailed e \<Rightarrow> Some (Inl (IoFailed e))
      | ShutDown \<Rightarrow> Some (Inr (drain (running s @ exiting s @ finished s) (st_drain_timeout st) ends unwinds)))"

section \<open>Lemmas\<close>

definition serve_inv :: "nat \<Rightarrow> server \<Rightarrow> bool" where
  "serve_inv max_conn s \<longleftrightarrow>
     permits s + length (running s) = max_conn \<and>
     distinct (running s @ exiting s @ finished s) \<and>
     (\<forall>t \<in> set (running s @ exiting s @ finished s). t < spawned s) \<and>
     spawned s = length (running s) + length (exiting s) + length (finished s) + reaped s"

lemma serve_poll_inv: "serve_inv m s \<Longrightarrow> serve_inv m (serve_poll sd acc s)"
  by (auto simp: serve_inv_def serve_poll_def less_Suc_eq split: list.splits option.splits sum.splits)

lemma length_remove1_Suc: "x \<in> set xs \<Longrightarrow> length xs = Suc (length (remove1 x xs))"
  using length_pos_if_in_set [of x xs] by (simp add: length_remove1)

lemma task_exit_inv: "serve_inv m s \<Longrightarrow> t \<in> set (running s) \<Longrightarrow> serve_inv m (task_exit t s)"
  using length_remove1_Suc [of t "running s"] by (auto simp: serve_inv_def task_exit_def simp del: length_remove1)

lemma task_done_inv: "serve_inv m s \<Longrightarrow> t \<in> set (exiting s) \<Longrightarrow> serve_inv m (task_done t s)"
  using length_remove1_Suc [of t "exiting s"] by (auto simp: serve_inv_def task_done_def simp del: length_remove1)

lemma serve_reach_inv: "serve_reach m s \<Longrightarrow> serve_inv m s"
proof (induction rule: serve_reach.induct)
  case start
  show ?case by (simp add: serve_inv_def init_server_def)
next
  case (step s s')
  from step.hyps(2) step.IH show ?case
    by (auto intro: serve_poll_inv task_exit_inv task_done_inv)
qed

lemma only_panics_logged:
  assumes "\<And>e. res = Inl e \<Longrightarrow> is_cancelled e = (\<not> is_panic e)"
  shows "log_task_result res = (if \<exists>e. res = Inl e \<and> is_panic e then Some ''connection task panicked'' else None)"
  using assms by (cases res) (auto simp: log_task_result_def)

lemma collect_results_Inr: "collect_results items = Inr cs \<Longrightarrow> items = map Inr cs"
  by (induction items arbitrary: cs) (auto split: sum.splits)

text \<open>What the runtime promises of its events: they come in order, one per task, for tasks of the set.\<close>

definition joins_ok :: "nat list \<Rightarrow> join_event list \<Rightarrow> bool" where
  "joins_ok tasks evs \<longleftrightarrow> sorted (map ev_time evs) \<and> distinct (map ev_task evs) \<and> set (map ev_task evs) \<subseteq> set tasks"

definition joined_by :: "nat \<Rightarrow> join_event list \<Rightarrow> nat \<Rightarrow> bool" where
  "joined_by deadline evs t \<longleftrightarrow> list_ex (\<lambda>e. ev_task e = t \<and> ev_time e \<le> deadline) evs"

definition lines_by :: "nat \<Rightarrow> join_event list \<Rightarrow> str list" where
  "lines_by deadline evs = concat (map (log_lines \<circ> ev_result) (filter (\<lambda>e. ev_time e \<le> deadline) evs))"

lemma joins_ok_Nil: "joins_ok [] evs \<Longrightarrow> evs = []"
  by (cases evs) (simp_all add: joins_ok_def)

lemma joins_ok_Cons:
  assumes "joins_ok tasks (e # es)" and "distinct tasks"
  shows "joins_ok (remove1 (ev_task e) tasks) es" and "ev_task e \<in> set tasks"
    and "\<And>x. x \<in> set es \<Longrightarrow> ev_time e \<le> ev_time x"
  using assms by (auto simp: joins_ok_def rev_image_eqI)

lemma join_until_later: "join_until d now tasks evs = (secs, left, logs) \<Longrightarrow> now \<le> d \<Longrightarrow> now \<le> secs"
proof (induction evs arbitrary: now tasks logs)
  case Nil
  then show ?case by (auto simp: join_until.simps [of d now tasks "[]"] split: if_splits)
next
  case (Cons e es)
  then show ?case
    by (fastforce simp: join_until.simps [of d now tasks "e # es"] split: if_splits prod.splits)
qed

lemma join_until_spec:
  assumes "joins_ok tasks evs" and "distinct tasks" and "join_until d now tasks evs = (secs, left, logs)" and "now \<le> d"
  shows "left = filter (\<lambda>t. \<not> joined_by d evs t) tasks \<and> secs \<le> d \<and> (left \<noteq> [] \<longrightarrow> secs = d) \<and> logs = lines_by d evs"
  using assms
proof (induction evs arbitrary: now tasks secs left logs)
  case Nil
  then show ?case by (auto simp: join_until.simps [of d now tasks "[]"] joined_by_def lines_by_def split: if_splits)
next
  case (Cons e es)
  note ok = joins_ok_Cons [OF Cons.prems(1,2)]
  have ne: "tasks \<noteq> []" using ok(2) by auto
  show ?case
  proof (cases "d < ev_time e")
    case True
    then have "d < ev_time x" if "x \<in> set (e # es)" for x using that ok(3) by (fastforce intro: less_le_trans)
    with True ne Cons.prems(3) show ?thesis
      by (fastforce simp: join_until.simps [of d now tasks "e # es"] joined_by_def lines_by_def list_ex_iff filter_empty_conv
          intro!: filter_True [symmetric])
  next
    case False
    obtain logs' where r: "join_until d (max now (ev_time e)) (remove1 (ev_task e) tasks) es = (secs, left, logs')"
      and logs: "logs = log_lines (ev_result e) @ logs'"
      using Cons.prems(3) False ne by (auto simp: join_until.simps [of d now tasks "e # es"] split: prod.splits)
    have "distinct (remove1 (ev_task e) tasks)" "max now (ev_time e) \<le> d" using Cons.prems(2,4) False by simp_all
    from Cons.IH [OF ok(1) this(1) r this(2)] have IH: "left = filter (\<lambda>t. \<not> joined_by d es t) (remove1 (ev_task e) tasks)"
      "secs \<le> d" "left \<noteq> [] \<longrightarrow> secs = d" "logs' = lines_by d es" by blast+
    moreover have "filter (\<lambda>t. \<not> joined_by d es t) (remove1 (ev_task e) tasks) = filter (\<lambda>t. \<not> joined_by d (e # es) t) tasks"
      using False Cons.prems(2) by (simp add: distinct_remove1_removeAll removeAll_filter_not_eq joined_by_def)
    ultimately show ?thesis using False logs by (simp add: lines_by_def)
  qed
qed

lemma drain_spec:
  assumes "joins_ok tasks ends" and "distinct tasks" and "d = drain tasks timeout ends unwinds" and "joins_ok (dr_aborted d) unwinds"
  shows "dr_secs d \<le> timeout + 1 \<and> dr_aborted d = filter (\<lambda>t. \<not> joined_by timeout ends t) tasks
    \<and> (dr_aborted d \<noteq> [] \<longrightarrow> timeout \<le> dr_secs d)
    \<and> dr_left d = filter (\<lambda>t. \<not> joined_by (timeout + 1) unwinds t) (dr_aborted d)
    \<and> dr_logs d = lines_by timeout ends @ lines_by (timeout + 1) unwinds"
proof (cases "tasks = []")
  case True
  with assms joins_ok_Nil [of ends] joins_ok_Nil [of unwinds] show ?thesis by (simp add: drain_def lines_by_def)
next
  case False
  obtain secs rest logs where r: "join_until timeout 0 tasks ends = (secs, rest, logs)" by (metis prod_cases3)
  note one = join_until_spec [OF assms(1,2) r le0]
  show ?thesis
  proof (cases "rest = []")
    case True
    with r False assms(3,4) joins_ok_Nil [of unwinds] one show ?thesis by (simp add: drain_def lines_by_def)
  next
    case rest: False
    obtain secs' left logs' where r': "join_until (timeout + 1) timeout rest unwinds = (secs', left, logs')" by (metis prod_cases3)
    have d: "d = \<lparr>dr_secs = secs', dr_aborted = rest, dr_left = left, dr_logs = logs @ logs'\<rparr>"
      using r r' rest False assms(3) by (simp add: drain_def ABORT_UNWIND_GRACE_def)
    have "distinct rest" using one assms(2) by simp
    from join_until_spec [OF _ this r'] join_until_later [OF r'] assms(4) d one rest show ?thesis by simp
  qed
qed

section \<open>Properties\<close>

text \<open>C20. The connection limit holds in every reachable state, under any interleaving of accepts and task
  ends: the free permits and the connections being served add up to the limit, every spawned task is
  running, exiting, waiting to be joined or already joined, and none is counted twice. A pending
  connection is turned away only when the limit is fully used, and is served otherwise.\<close>

theorem connection_limit_respected:
  assumes "serve_reach max_conn s"
  shows "permits s + length (running s) = max_conn
    \<and> distinct (running s @ exiting s @ finished s)
    \<and> spawned s = length (running s) + length (exiting s) + length (finished s) + reaped s
    \<and> (finished s = [] \<longrightarrow>
        serve_poll False (Some (Inr ())) s =
          (if length (running s) = max_conn then s\<lparr>refused := Suc (refused s)\<rparr>
           else s\<lparr>permits := permits s - 1, running := spawned s # running s, spawned := Suc (spawned s)\<rparr>))"
  using serve_reach_inv [OF assms] by (auto simp: serve_inv_def serve_poll_def)

theorem connection_limit_respected_witness:
  "\<exists>s. serve_reach 1 s \<and> running s = [0] \<and> permits s + length (running s) = 1
     \<and> serve_poll False (Some (Inr ())) s = s\<lparr>refused := 1\<rparr>"
proof -
  let ?s = "serve_poll False (Some (Inr ())) (init_server 1)"
  have r: "serve_reach 1 ?s"
    by (rule serve_reach.step [OF serve_reach.start serve_step.poll]) (simp add: init_server_def)
  from connection_limit_respected [OF r] r show ?thesis
    by (intro exI [of _ ?s]) (simp add: serve_poll_def init_server_def)
qed

text \<open>Shutdown wins: once the shutdown signal is ready the loop stops at its next turn, whatever else is
  ready, without accepting or joining; and a stopped server spawns nothing any more, so the tasks
  returned for draining are all that remain.\<close>

theorem shutdown_stops_accepting:
  assumes "serve_step\<^sup>*\<^sup>* s s'" and "sphase s \<noteq> Accepting"
  shows "serve_poll True acc t = t\<lparr>sphase := ShutDown\<rparr>
    \<and> sphase s' = sphase s \<and> spawned s' = spawned s \<and> refused s' = refused s
    \<and> mset (running s' @ exiting s' @ finished s') = mset (running s @ exiting s @ finished s)"
proof -
  have keep: "sphase v = sphase u \<and> spawned v = spawned u \<and> refused v = refused u
      \<and> mset (running v @ exiting v @ finished v) = mset (running u @ exiting u @ finished u)"
    if "serve_step u v" "sphase u \<noteq> Accepting" for u v
    using that by (auto simp: task_exit_def task_done_def)
  from assms have "sphase s' = sphase s \<and> spawned s' = spawned s \<and> refused s' = refused s
      \<and> mset (running s' @ exiting s' @ finished s') = mset (running s @ exiting s @ finished s)"
  proof (induction rule: rtranclp_induct)
    case (step u v)
    then show ?case using keep [of u v] by simp
  qed simp
  then show ?thesis by (simp add: serve_poll_def)
qed

theorem shutdown_stops_accepting_witness:
  "\<exists>s s'. serve_step\<^sup>*\<^sup>* s s' \<and> sphase s = ShutDown \<and> running s = [0] \<and> running s' = []
     \<and> mset (running s' @ exiting s' @ finished s') = {#0#} \<and> spawned s' = spawned s"
proof -
  define s where "s = (init_server 2)\<lparr>sphase := ShutDown, permits := 1, running := [0], spawned := 1\<rparr>"
  have "serve_step s (task_exit 0 s)" by (rule serve_step.exits) (simp add: s_def)
  then have r: "serve_step\<^sup>*\<^sup>* s (task_exit 0 s)" by (rule r_into_rtranclp)
  have "sphase s \<noteq> Accepting" by (simp add: s_def)
  from shutdown_stops_accepting [OF r this] r show ?thesis
    by (intro exI [of _ s] exI [of _ "task_exit 0 s"]) (simp add: s_def task_exit_def init_server_def)
qed

text \<open>The gateway serves only under an accepted configuration: when startup succeeds the policy accepted
  it, the connection limit is positive, and a TLS acceptor is present exactly when the startup handler
  will insist on TLS for passwords (both files configured).\<close>

theorem start_implies_policy:
  assumes "main_start resolve lib env_var bind_error signal_error cfg = Inr st"
  shows "(\<exists>posture. validate resolve cfg = Inr posture)
    \<and> 0 < st_max_connections st \<and> st_max_connections st = max_connections cfg
    \<and> (st_acceptor st \<noteq> None \<longleftrightarrow> tls_required cfg)
    \<and> st_drain_timeout st = drain_timeout_from_env env_var"
  using assms
  by (auto simp: main_start_def Let_def tls_required_def split: sum.splits if_splits option.splits)

definition sample_tls :: "(str, str, str) tls_lib" where
  "sample_tls = \<lparr>pem_file_iter = (\<lambda>p. Inr [Inr p]), pem_key_file = (\<lambda>p. Inr p), protocol_versions_error = None,
     with_single_cert = (\<lambda>cs k. Inr (concat cs @ k))\<rparr>"

theorem start_implies_policy_witness:
  "\<exists>st. main_start (\<lambda>_. Inl []) sample_tls (\<lambda>_. Some ''40'') (\<lambda>_. None) None
      (default_config\<lparr>tls_cert := Some ''c'', tls_key := Some ''k''\<rparr>) = Inr st
    \<and> st_acceptor st \<noteq> None \<and> st_drain_timeout st = 40"
proof -
  let ?cfg = "default_config\<lparr>tls_cert := Some ''c'', tls_key := Some ''k''\<rparr>"
  have "\<exists>p. validate (\<lambda>_. Inl []) ?cfg = Inr p"
    by (rule exI [of _ DisabledLoopback]) code_simp
  then obtain st where s: "main_start (\<lambda>_. Inl []) sample_tls (\<lambda>_. Some ''40'') (\<lambda>_. None) None ?cfg = Inr st"
    by (auto simp: main_start_def Let_def build_acceptor_def load_certs_def load_key_def sample_tls_def
        default_config_def split: sum.splits)
  have "drain_timeout_from_env (\<lambda>_. Some ''40'') = 40" unfolding drain_timeout_from_env_def by code_simp
  with start_implies_policy [OF s] s show ?thesis by (auto simp: tls_required_def)
qed

text \<open>A TLS acceptor is built only from at least one certificate and a key the TLS library accepted as a
  pair; every failure names the file it is about or the pair.\<close>

theorem acceptor_needs_certificate:
  "case build_acceptor lib cert key of
     Inr a \<Rightarrow> \<exists>cs k. cs \<noteq> [] \<and> pem_file_iter lib cert = Inr (map Inr cs) \<and> pem_key_file lib key = Inr k
               \<and> with_single_cert lib cs k = Inr a
   | Inl e \<Rightarrow> e \<noteq> [] \<and> (contains (hd e) cert \<or> contains (hd e) key \<or> protocol_versions_error lib \<noteq> None)"
proof -
  show ?thesis
  proof (cases "build_acceptor lib cert key")
    case (Inr a)
    then show ?thesis
      by (auto simp: build_acceptor_def load_certs_def load_key_def dest!: collect_results_Inr split: sum.splits option.splits if_splits)
  next
    case (Inl e)
    then show ?thesis
      by (auto simp: build_acceptor_def load_certs_def load_key_def contains_iff_sublist sublist_Cons_right
          sublist_append_rightI split: sum.splits option.splits if_splits)
  qed
qed

text \<open>The drain timeout: every decimal number of seconds that fits 64 bits is read exactly, and anything
  else leaves the 25 second default.\<close>

theorem drain_timeout_parsing:
  "(n < 2 ^ 64 \<longrightarrow> parse_drain_timeout (Some (nat_to_str n)) = n)
   \<and> parse_drain_timeout None = 25
   \<and> (parse_u64 v = None \<longrightarrow> parse_drain_timeout (Some v) = 25)"
  by (simp add: parse_drain_timeout_def parse_u64_nat_to_str DEFAULT_SHUTDOWN_DRAIN_TIMEOUT_def)

theorem drain_timeout_parsing_witness:
  "parse_drain_timeout (Some (nat_to_str 40)) = 40 \<and> parse_drain_timeout (Some ''4x'') = 25"
proof -
  have "parse_u64 ''4x'' = None" by code_simp
  with drain_timeout_parsing [of 40 "''4x''"] show ?thesis by simp
qed

text \<open>C40. The drain gives every connection its time. After a successful start and a shutdown, whatever the server
  went through and whenever the runtime ends its tasks: the drain is over after at most the configured
  timeout plus one second; the tasks aborted are exactly those handed over that could not be joined
  within the timeout, and none is aborted before the timeout has passed; the tasks left behind are
  exactly the aborted ones that had not unwound a second later; and the lines logged are those of the
  joined tasks, in order.\<close>

theorem drain_outcome:
  assumes "main_start resolve lib env_var bind_error signal_error cfg = Inr st"
    and "serve_reach (st_max_connections st) s" and "main_finish st ends unwinds s = Some (Inr d)"
    and "joins_ok (running s @ exiting s @ finished s) ends" and "joins_ok (dr_aborted d) unwinds"
  shows "dr_secs d \<le> drain_timeout_from_env env_var + 1
    \<and> dr_aborted d = filter (\<lambda>t. \<not> joined_by (drain_timeout_from_env env_var) ends t) (running s @ exiting s @ finished s)
    \<and> (dr_aborted d \<noteq> [] \<longrightarrow> drain_timeout_from_env env_var \<le> dr_secs d)
    \<and> dr_left d = filter (\<lambda>t. \<not> joined_by (drain_timeout_from_env env_var + 1) unwinds t) (dr_aborted d)
    \<and> dr_logs d = lines_by (drain_timeout_from_env env_var) ends @ lines_by (drain_timeout_from_env env_var + 1) unwinds"
proof -
  let ?tasks = "running s @ exiting s @ finished s"
  have st: "st_drain_timeout st = drain_timeout_from_env env_var"
    using assms(1) by (auto simp: main_start_def Let_def split: sum.splits if_splits option.splits)
  have "distinct ?tasks" using serve_reach_inv [OF assms(2)] by (simp add: serve_inv_def)
  moreover have "d = drain ?tasks (drain_timeout_from_env env_var) ends unwinds"
    using assms(3) by (auto simp: main_finish_def st split: serve_phase.splits)
  ultimately show ?thesis using drain_spec [OF assms(4) _ _ assms(5)] by blast
qed

text \<open>Witness: of three tasks one ends in time, one unwinds after the abort and one hangs.\<close>

theorem drain_outcome_witness:
  "\<exists>s d. serve_reach 3 s \<and> running s = [2, 1, 0]
     \<and> main_finish \<lparr>st_acceptor = None :: str option, st_drain_timeout = 25, st_max_connections = 3\<rparr>
         [\<lparr>ev_time = 7, ev_task = 1, ev_result = Inr ()\<rparr>]
         [\<lparr>ev_time = 26, ev_task = 0, ev_result = Inl \<lparr>is_panic = False, is_cancelled = True\<rparr>\<rparr>] s = Some (Inr d)
     \<and> dr_secs d = 26 \<and> dr_aborted d = [2, 0] \<and> dr_left d = [2] \<and> dr_logs d = []"
proof -
  let ?st = "\<lparr>st_acceptor = None :: str option, st_drain_timeout = 25, st_max_connections = 3\<rparr>"
  let ?ends = "[\<lparr>ev_time = 7, ev_task = 1, ev_result = Inr ()\<rparr>]"
  let ?unwinds = "[\<lparr>ev_time = 26, ev_task = 0, ev_result = Inl \<lparr>is_panic = False, is_cancelled = True\<rparr>\<rparr>]"
  let ?cfg = "default_config\<lparr>max_connections := 3\<rparr>" and ?acc = "serve_poll False (Some (Inr ()))"
  let ?s = "serve_poll True None (?acc (?acc (?acc (init_server 3))))"
  have "\<exists>p. validate (\<lambda>_. Inl []) ?cfg = Inr p" by (rule exI [of _ DisabledLoopback]) code_simp
  then have m: "main_start (\<lambda>_. Inl []) sample_tls (\<lambda>_. None) (\<lambda>_. None) None ?cfg = Inr ?st"
    by (auto simp: main_start_def Let_def default_config_def drain_timeout_from_env_def parse_drain_timeout_def
        DEFAULT_SHUTDOWN_DRAIN_TIMEOUT_def)
  have t: "drain_timeout_from_env (\<lambda>_. None) = 25"
    by (simp add: drain_timeout_from_env_def parse_drain_timeout_def DEFAULT_SHUTDOWN_DRAIN_TIMEOUT_def)
  have r: "serve_reach 3 ?s"
    by (intro serve_reach.step [OF _ serve_step.poll] serve_reach.start) (simp_all add: serve_poll_def init_server_def)
  have s: "running ?s = [2, 1, 0]" "exiting ?s = []" "finished ?s = []" "sphase ?s = ShutDown"
    by (simp_all add: serve_poll_def init_server_def)
  then have d: "main_finish ?st ?ends ?unwinds ?s = Some (Inr (drain [2, 1, 0] 25 ?ends ?unwinds))" by (simp add: main_finish_def)
  have a: "dr_aborted (drain [2, 1, 0] 25 ?ends ?unwinds) = [2, 0]" "dr_secs (drain [2, 1, 0] 25 ?ends ?unwinds) = 26"
    by (simp_all add: drain_def join_until.simps ABORT_UNWIND_GRACE_def)
  have "serve_reach (st_max_connections ?st) ?s" using r by simp
  from drain_outcome [OF m this d] a s t d r show ?thesis
    by (intro exI [of _ ?s] exI [of _ "drain [2, 1, 0] 25 ?ends ?unwinds"])
       (simp add: joins_ok_def joined_by_def lines_by_def log_lines_def log_task_result_def)
qed

end
