(* ===== verification/Gateway_System.thy ===== *)
theory Gateway_System
  imports Session_Protocol Server
begin

text \<open>
  The whole gateway at work: the accept loop admits connections, each goes through its handshake, sends
  messages, has its streams polled and dropped, and closes, in any interleaving, over one shared state.
  Every handler is the one the factory of \<^verbatim>\<open>src/handler.rs\<close> provides. The abstraction to the life cycle of
  connections forgets the server, clients, caches and streams; the simulation shows that every step of
  the system is a sequence of steps of the life cycle, so that what is proved of cancel requests there
  holds of the system. The invariant adds the accept loop (one connection per running task) and what a
  session is allowed to be under the configuration.
\<close>

section \<open>The system\<close>

text \<open>A connection task: its id in the accept loop, its client and its streams in flight.\<close>

record task_conn =
  tk_id :: nat
  tk_client :: session_client
  tk_streams :: "row_stream list"

record 's gw_system =
  sy_server :: server
  sy_gw :: gateway
  sy_svc :: 's
  sy_conns :: "task_conn list"

definition init_system :: "config \<Rightarrow> 's \<Rightarrow> 's gw_system" where
  "init_system cfg s = \<lparr>sy_server = init_server (max_connections cfg), sy_gw = init_gateway, sy_svc = s, sy_conns = []\<rparr>"

definition conn_of :: "'s gw_system \<Rightarrow> task_conn \<Rightarrow> 's conn" where
  "conn_of S c = \<lparr>cn_client = tk_client c, cn_streams = tk_streams c, cn_svc = sy_svc S, cn_gw = sy_gw S\<rparr>"

definition remove_nth :: "nat \<Rightarrow> 'a list \<Rightarrow> 'a list" where
  "remove_nth i xs = take i xs @ drop (Suc i) xs"

text \<open>The task of an accepted socket, secure when the TLS handshake took place.\<close>

definition spawn_conn :: "bool \<Rightarrow> server \<Rightarrow> server \<Rightarrow> task_conn list" where
  "spawn_conn secure srv srv' =
     (if spawned srv' = spawned srv then [] else [\<lparr>tk_id = spawned srv, tk_client = new_client secure, tk_streams = []\<rparr>])"

text \<open>The end of a connection: its registration goes, then its stashed responses.\<close>

definition close_session :: "gw_response connection_state option \<Rightarrow> gateway \<Rightarrow> gateway" where
  "close_session st g =
     (case st of
        None \<Rightarrow> g
      | Some cs \<Rightarrow> fold drop_response (map (cp_response \<circ> snd) (pc_entries (cs_portals cs))) (drop_connection_state cs g))"

text \<open>
  The wire library reads a startup packet (or a cancel request) first, password messages while the
  authentication is in progress, and query messages when the startup is finished.
\<close>

fun expected_in :: "conn_phase \<Rightarrow> frontend_message \<Rightarrow> bool" where
  "expected_in p (StartupMessage params) \<longleftrightarrow> p = AwaitingStartup"
| "expected_in p (PasswordMessageFamily pwd) \<longleftrightarrow> p = AuthenticationInProgress"
| "expected_in p OtherMessage \<longleftrightarrow> p \<noteq> ReadyForQuery"

inductive system_step :: "'s deployment \<Rightarrow> 's gw_system \<Rightarrow> 's gw_system \<Rightarrow> bool" for D where
  serve: "sphase (sy_server S) = Accepting \<Longrightarrow> srv = serve_poll sd acc (sy_server S) \<Longrightarrow>
     (secure \<Longrightarrow> tls_required (dp_config D)) \<Longrightarrow>
     system_step D S (S\<lparr>sy_server := srv, sy_conns := spawn_conn secure (sy_server S) srv @ sy_conns S\<rparr>)"
| joinable: "t \<in> set (exiting (sy_server S)) \<Longrightarrow>
     system_step D S (S\<lparr>sy_server := task_done t (sy_server S)\<rparr>)"
| handshake: "i < length (sy_conns S) \<Longrightarrow> sy_conns S ! i = c \<Longrightarrow> expected_in (phase (tk_client c)) msg \<Longrightarrow>
     (\<And>tc. check_error wenv tc = None \<Longrightarrow> dp_accepts D tc) \<Longrightarrow>
     startup_handler (main_factory D) wenv (tk_client c) msg (sy_gw S) = (res, client', g') \<Longrightarrow>
     system_step D S (S\<lparr>sy_gw := g', sy_conns := (sy_conns S)[i := c\<lparr>tk_client := client'\<rparr>]\<rparr>)"
| cancel: "i < length (sy_conns S) \<Longrightarrow> phase (tk_client (sy_conns S ! i)) = AwaitingStartup \<Longrightarrow>
     (cancel_handler (main_factory D) pid secret (sy_gw S) = None \<Longrightarrow> s' = sy_svc S) \<Longrightarrow>
     system_step D S (S\<lparr>sy_svc := s'\<rparr>)"
| work: "i < length (sy_conns S) \<Longrightarrow> sy_conns S ! i = c \<Longrightarrow> phase (tk_client c) = ReadyForQuery \<Longrightarrow>
     session_step D (conn_of S c) k \<Longrightarrow>
     system_step D S (S\<lparr>sy_gw := cn_gw k, sy_svc := cn_svc k,
       sy_conns := (sy_conns S)[i := c\<lparr>tk_client := cn_client k, tk_streams := cn_streams k\<rparr>]\<rparr>)"
| close: "i < length (sy_conns S) \<Longrightarrow> sy_conns S ! i = c \<Longrightarrow> tk_streams c = [] \<Longrightarrow>
     system_step D S (S\<lparr>sy_gw := close_session (session_state (tk_client c)) (sy_gw S),
       sy_server := task_exit (tk_id c) (sy_server S), sy_conns := remove_nth i (sy_conns S)\<rparr>)"

inductive system_reach :: "'s deployment \<Rightarrow> 's gw_system \<Rightarrow> bool" for D where
  start: "system_reach D (init_system (dp_config D) s)"
| step: "system_reach D S \<Longrightarrow> system_step D S S' \<Longrightarrow> system_reach D S'"

section \<open>The abstraction\<close>

text \<open>
  The session of a connection as it was when it was established: what changes later is its cache. The
  cells of active queries are never reused, so that their number is the number of sessions established,
  and their order is the order in which the live sessions were.
\<close>

definition base_state :: "'r connection_state \<Rightarrow> 'r connection_state" where
  "base_state cs = cs\<lparr>cs_portals := new_portal_cache\<rparr>"

definition session_of :: "task_conn \<Rightarrow> gw_response connection_state list" where
  "session_of c = (case session_state (tk_client c) of None \<Rightarrow> [] | Some cs \<Rightarrow> [base_state cs])"

definition sessions :: "'s gw_system \<Rightarrow> gw_response connection_state list" where
  "sessions S = concat (map session_of (sy_conns S))"

definition latest_first :: "'r connection_state list \<Rightarrow> 'r connection_state list" where
  "latest_first = sort_key (\<lambda>st. - int (cs_active_query_id st))"

definition abs_world :: "'s gw_system \<Rightarrow> gw_response world" where
  "abs_world S = \<lparr>gw = sy_gw S, live = latest_first (sessions S), established = next_slot (sy_gw S)\<rparr>"

text \<open>A connection in order: a session's cache and streams are its own, and before the startup is finished there are none.\<close>

definition conn_ok :: "task_conn \<Rightarrow> bool" where
  "conn_ok c \<longleftrightarrow>
     (case session_state (tk_client c) of
        None \<Rightarrow> phase (tk_client c) \<noteq> ReadyForQuery
      | Some cs \<Rightarrow> own_cache (cs_active_query_id cs) (cs_portals cs)
          \<and> (\<forall>st \<in> set (tk_streams c). rs_slot st = Some (cs_active_query_id cs))
          \<and> (phase (tk_client c) \<noteq> ReadyForQuery \<longrightarrow> cs_portals cs = new_portal_cache))
     \<and> (phase (tk_client c) \<noteq> ReadyForQuery \<longrightarrow> tk_streams c = [])"

section \<open>Helper lemmas\<close>

lemma base_state_simps [simp]:
  "cs_active_query_id (base_state cs) = cs_active_query_id cs" "cs_cancel_key (base_state cs) = cs_cancel_key cs"
  "cs_trino_client (base_state cs) = cs_trino_client cs" "cs_config (base_state cs) = cs_config cs"
  "base_state (cs\<lparr>cs_portals := cache\<rparr>) = base_state cs" "base_state (base_state cs) = base_state cs"
  "(base_state cs)\<lparr>cs_portals := cs_portals cs\<rparr> = cs"
  "drop_connection_state (base_state cs) g = drop_connection_state cs g"
  by (simp_all add: base_state_def drop_connection_state_def)

lemma set_remove_nth: "set (remove_nth i xs) \<subseteq> set xs"
  by (auto simp: remove_nth_def dest: in_set_takeD in_set_dropD)

lemma mset_remove_nth: "i < length xs \<Longrightarrow> add_mset (xs ! i) (mset (remove_nth i xs)) = mset xs"
  using arg_cong [OF id_take_nth_drop [of i xs], of mset] by (simp add: remove_nth_def)

lemma map_remove_nth: "map f (remove_nth i xs) = remove_nth i (map f xs)"
  by (simp add: remove_nth_def take_map drop_map)

lemma concat_remove_nth:
  "i < length xs \<Longrightarrow> mset (concat (map f (remove_nth i xs))) + mset (f (xs ! i)) = mset (concat (map f xs))"
  using arg_cong [OF id_take_nth_drop [of i xs], of "\<lambda>ys. mset (concat (map f ys))"] by (simp add: remove_nth_def)

lemma concat_update:
  assumes "i < length xs"
  shows "mset (concat (map f (xs[i := y]))) + mset (f (xs ! i)) = mset (concat (map f xs)) + mset (f y)"
  using arg_cong [OF id_take_nth_drop [OF assms], of "\<lambda>ys. mset (concat (map f ys))"] upd_conv_take_nth_drop [OF assms, of y]
  by simp

lemma map_update_same: "f y = f (xs ! i) \<Longrightarrow> map f (xs[i := y]) = map f xs"
  by (simp add: map_update) (metis list_update_beyond list_update_id length_map nth_map not_le)

lemma list_all_update: "list_all P xs \<Longrightarrow> P y \<Longrightarrow> list_all P (xs[i := y])"
  by (auto simp: list_all_iff dest!: set_update_subset_insert [THEN subsetD])

lemma list_all_remove_nth: "list_all P xs \<Longrightarrow> list_all P (remove_nth i xs)"
  using set_remove_nth [of i xs] by (auto simp: list_all_iff)

lemma latest_first_set [simp]: "set (latest_first xs) = set xs" "mset (latest_first xs) = mset xs"
  by (simp_all add: latest_first_def)

lemma latest_first_cong:
  assumes "mset xs = mset ys" and "inj_on cs_active_query_id (set xs)"
  shows "latest_first xs = latest_first ys"
proof -
  have "inj_on (\<lambda>st. - int (cs_active_query_id st)) (set xs)" using assms(2) by (auto simp: inj_on_def)
  then show ?thesis using assms(1) unfolding latest_first_def by (intro sort_key_inj_key_eq) simp_all
qed

lemma latest_first_Cons:
  "(\<And>x. x \<in> set xs \<Longrightarrow> cs_active_query_id x < cs_active_query_id a) \<Longrightarrow> latest_first (a # xs) = a # latest_first xs"
  by (auto simp: latest_first_def intro!: insort_is_Cons less_imp_le)

lemma latest_first_remove1:
  assumes "inj_on cs_active_query_id (set xs)" and "distinct xs" and "x \<in> set xs"
  shows "latest_first (remove1 x xs) = remove1 x (latest_first xs)"
proof -
  have "inj_on (\<lambda>st. - int (cs_active_query_id st)) (set (remove1 x xs))"
    using assms(1) set_remove1_subset [of x xs] by (auto simp: inj_on_def)
  then show ?thesis unfolding latest_first_def
    by (intro sort_key_inj_key_eq) (simp_all add: sorted_map_remove1)
qed

lemma own_cache_new [simp]: "own_cache c new_portal_cache"
  by (auto simp: own_cache_def cache_ok_def cache_wf_def new_portal_cache_def)

lemma abs_live:
  assumes "life_inv (abs_world S)"
  shows "distinct (sessions S)" and "inj_on cs_active_query_id (set (sessions S))"
    and "\<And>st. st \<in> set (sessions S) \<Longrightarrow> cs_active_query_id st < next_slot (sy_gw S)"
proof -
  have "distinct (map cs_active_query_id (latest_first (sessions S)))"
    using assms by (simp add: life_inv_def abs_world_def)
  then show "distinct (sessions S)" "inj_on cs_active_query_id (set (sessions S))"
    by (auto simp: distinct_map dest: mset_eq_imp_distinct_iff [OF latest_first_set(2), THEN iffD1])
  show "cs_active_query_id st < next_slot (sy_gw S)" if "st \<in> set (sessions S)" for st
    using assms that by (simp add: life_inv_def abs_world_def)
qed

section \<open>Startup\<close>

text \<open>
  What the startup handler does to a connection: it leaves sessions and shared state alone, possibly asking
  for a password where that is allowed, or it establishes a session with a client built from the
  configuration, verified when a password was given.
\<close>

definition may_authenticate :: "config \<Rightarrow> session_client \<Rightarrow> bool" where
  "may_authenticate cfg client \<longleftrightarrow> auth cfg \<and> (tls_required cfg \<longrightarrow> is_secure client)"

text \<open>The user a connection announced in its startup packet, empty when it announced none.\<close>

definition session_user :: "session_client \<Rightarrow> str" where
  "session_user client = (case metadata client ''user'' of Some u \<Rightarrow> u | None \<Rightarrow> [])"

definition credentials_for :: "wire_env \<Rightarrow> config \<Rightarrow> session_client \<Rightarrow> frontend_message \<Rightarrow> trino_client \<Rightarrow> bool" where
  "credentials_for env cfg client msg tc \<longleftrightarrow>
     (case msg of
        StartupMessage params \<Rightarrow> \<not> auth cfg \<and> build_trino_client env cfg None None = Inr tc
      | PasswordMessageFamily (Inr pw) \<Rightarrow>
          check_error env tc = None \<and> build_trino_client env cfg (Some (session_user client)) (Some pw) = Inr tc
      | _ \<Rightarrow> False)"

lemma on_startup_cases:
  assumes "on_startup env cfg client msg g = (res, client', g')"
  obtains (same) "g' = g" and "session_state client' = session_state client" and "is_secure client' = is_secure client"
      and "phase client' = phase client \<or> phase client' = AuthenticationInProgress \<and> may_authenticate cfg client
            \<and> (\<exists>params. msg = StartupMessage params)"
      and "session_user client' = session_user client \<or> (\<exists>params. msg = StartupMessage params)"
  | (established) c1 tc where "establish_session env cfg c1 tc g = (res, client', g')"
      and "session_state c1 = session_state client" and "is_secure c1 = is_secure client" and "phase c1 = phase client"
      and "credentials_for env cfg client msg tc"
      and "session_user c1 = session_user client \<or> (\<exists>params. msg = StartupMessage params)"
proof (cases msg)
  case (StartupMessage params)
  with assms same established [of "client\<lparr>metadata := metadata client ++ map_of (rev params)\<rparr>"] show thesis
    by (auto simp: on_startup_def Let_def credentials_for_def may_authenticate_def split: option.splits sum.splits if_splits)
next
  case (PasswordMessageFamily pwd)
  with assms same established [of client] show thesis
    by (auto simp: on_startup_def Let_def credentials_for_def session_user_def split: option.splits sum.splits)
next
  case OtherMessage
  with assms same show thesis by (auto simp: on_startup_def)
qed

lemma establish_fields:
  assumes "establish_session env cfg c1 tc g = (res, client', g')"
  obtains st where "session_state client' = Some st" and "cs_trino_client st = tc" and "cs_config st = cfg"
    and "cs_portals st = new_portal_cache" and "cs_active_query_id st = next_slot g" and "next_slot g' = Suc (next_slot g)"
    and "is_secure client' = is_secure c1" and "phase client' = phase c1 \<or> phase client' = ReadyForQuery"
    and "session_user client' = session_user c1"
  using assms
  by (auto simp: session_user_def establish_session_def new_pid_and_secret_key_def register_cancel_def Let_def
        drop_connection_state_def unregister_cancel_def split: option.splits)

text \<open>A session that replaces another is established first, then the other one is dropped.\<close>

lemma establish_replaces:
  assumes "establish_session env cfg c1 tc g = (res, client', g')" and "session_state c1 = Some old"
  obtains res0 c0 g0 where "establish_session env cfg (c1\<lparr>session_state := None\<rparr>) tc g = (res0, c0, g0)"
    and "session_state c0 = session_state client'" and "g' = drop_connection_state old g0"
  using assms
  by (cases "finish_error env") (auto simp: establish_session_def new_pid_and_secret_key_def register_cancel_def Let_def)

section \<open>The simulation\<close>

lemma conn_ok_session:
  assumes "conn_ok c" and "session_state (tk_client c) = Some cs"
  shows "session_ok (base_state cs) (conn_of S c)"
  using assms by (auto simp: conn_ok_def session_ok_def conn_of_def intro!: exI [of _ "cs_portals cs"])

lemma close_session_ok:
  assumes "conn_ok c" and "session_state (tk_client c) = Some cs"
  shows "close_session (Some cs) g = drop_connection_state (base_state cs) g"
proof -
  have "list_all (own_response (cs_active_query_id cs)) (map (cp_response \<circ> snd) (pc_entries (cs_portals cs)))"
    using assms by (auto simp: conn_ok_def own_cache_def list_all_iff)
  from own_write_drop_all [OF this] show ?thesis by (simp add: close_session_def)
qed

lemma abs_world_cong:
  assumes "life_inv (abs_world S)" and "mset (sessions S') = mset (sessions S)" and "sy_gw S' = sy_gw S"
  shows "abs_world S' = abs_world S"
  using latest_first_cong [OF assms(2) [symmetric]] abs_live(2) [OF assms(1)] assms(3) by (simp add: abs_world_def)

lemma abs_remove:
  assumes "life_inv (abs_world S)" and "mset (sessions S') + {#st#} = mset (sessions S)"
    and "sy_gw S' = drop_connection_state st (sy_gw S)"
  shows "life_step (abs_world S) (abs_world S')"
proof -
  have st: "st \<in> set (sessions S)" using assms(2) by (metis union_iff in_multiset_in_set set_mset_single singletonI)
  have m: "mset (sessions S') = mset (remove1 st (sessions S))" using assms(2) by (metis add_mset_add_single add_mset_remove_trivial mset_remove1)
  have "inj_on cs_active_query_id (set (sessions S'))"
    using abs_live(2) [OF assms(1)] mset_eq_setD [OF m] set_remove1_subset [of st "sessions S"] by (auto simp: inj_on_def)
  from latest_first_cong [OF m this] have "latest_first (sessions S') = remove1 st (latest_first (sessions S))"
    using latest_first_remove1 [OF abs_live(2,1) [OF assms(1)] st] by simp
  moreover have "next_slot (sy_gw S') = next_slot (sy_gw S)"
    by (simp add: assms(3) drop_connection_state_def unregister_cancel_def)
  moreover have "st \<in> set (live (abs_world S))" using st by (simp add: abs_world_def)
  ultimately show ?thesis using life_step.close [of st "abs_world S"] assms(3) by (simp add: abs_world_def)
qed

lemma abs_connect:
  assumes "life_inv (abs_world S)" and "session_state c1 = None"
    and "establish_session env cfg c1 tc (sy_gw S) = (res, client', g')" and "session_state client' = Some st"
    and "mset (sessions S') = add_mset st (mset (sessions S))" and "sy_gw S' = g'"
  shows "life_step (abs_world S) (abs_world S')"
proof -
  have slot: "cs_active_query_id st = next_slot (sy_gw S)" "next_slot g' = Suc (next_slot (sy_gw S))"
    using assms(3,4) by (auto elim!: establish_fields)
  have new: "\<And>x. x \<in> set (sessions S) \<Longrightarrow> cs_active_query_id x < cs_active_query_id st"
    using abs_live(3) [OF assms(1)] slot by simp
  have "inj_on cs_active_query_id (set (st # sessions S))"
  proof -
    have "cs_active_query_id st \<notin> cs_active_query_id ` (set (sessions S) - {st})"
    proof
      assume "cs_active_query_id st \<in> cs_active_query_id ` (set (sessions S) - {st})"
      then obtain x where "x \<in> set (sessions S)" "cs_active_query_id st = cs_active_query_id x" by auto
      with new [of x] show False by simp
    qed
    then show ?thesis using abs_live(2) [OF assms(1)] by (simp add: inj_on_insert)
  qed
  from latest_first_cong [OF _ this, of "sessions S'"] have "latest_first (sessions S') = st # latest_first (sessions S)"
    using assms(5) latest_first_Cons [OF new] by simp
  moreover have "life_step (abs_world S) ((abs_world S)\<lparr>gw := g', live := st # live (abs_world S),
      established := Suc (established (abs_world S))\<rparr>)"
    by (rule life_step.connect [OF assms(2) _ assms(4)]) (use assms(3) in \<open>simp add: abs_world_def\<close>)
  ultimately show ?thesis using assms(6) slot by (simp add: abs_world_def)
qed

lemma sessions_update:
  assumes "i < length (sy_conns S)" and "sy_conns S' = (sy_conns S)[i := c]"
  shows "mset (sessions S') + mset (session_of (sy_conns S ! i)) = mset (sessions S) + mset (session_of c)"
  using concat_update [OF assms(1), of session_of c] assms(2) by (simp add: sessions_def)

lemma handshake_ok:
  assumes "on_startup wenv cfg (tk_client c) msg g = (res, client', g')" and "conn_ok c"
    and "phase (tk_client c) \<noteq> ReadyForQuery"
  shows "conn_ok (c\<lparr>tk_client := client'\<rparr>) \<and> next_slot g \<le> next_slot g'"
  using assms(1)
proof (cases rule: on_startup_cases)
  case same
  with assms(2,3) show ?thesis by (auto simp: conn_ok_def split: option.splits)
next
  case (established c1 tc)
  obtain st where "session_state client' = Some st" "cs_portals st = new_portal_cache" "next_slot g' = Suc (next_slot g)"
    by (rule establish_fields [OF established(1)])
  with assms(2,3) show ?thesis by (simp add: conn_ok_def)
qed

lemma handshake_simulates:
  assumes "life_inv (abs_world S)" and "established (abs_world S') \<le> 2 ^ 32"
    and "i < length (sy_conns S)" and "sy_conns S ! i = c"
    and "on_startup wenv cfg (tk_client c) msg (sy_gw S) = (res, client', sy_gw S')"
    and "sy_conns S' = (sy_conns S)[i := c\<lparr>tk_client := client'\<rparr>]"
  shows "life_step\<^sup>*\<^sup>* (abs_world S) (abs_world S')"
  using assms(5)
proof (cases rule: on_startup_cases)
  case same
  have "session_of (c\<lparr>tk_client := client'\<rparr>) = session_of c" by (simp add: session_of_def same)
  with sessions_update [OF assms(3,6)] assms(4) have "mset (sessions S') = mset (sessions S)" by simp
  from abs_world_cong [OF assms(1) this] same show ?thesis by simp
next
  case (established c1 tc)
  obtain st where st: "session_state client' = Some st" "cs_portals st = new_portal_cache"
      "cs_active_query_id st = next_slot (sy_gw S)" "base_state st = st"
    by (rule establish_fields [OF established(1)]) (auto simp: base_state_def)
  have new: "mset (sessions S') + mset (session_of c) = add_mset st (mset (sessions S))"
    using sessions_update [OF assms(3,6)] st(1,4) assms(4) by (simp add: session_of_def)
  show ?thesis
  proof (cases "session_state c1")
    case None
    with established(2) have "session_of c = []" by (simp add: session_of_def)
    with new have "mset (sessions S') = add_mset st (mset (sessions S))" by simp
    from abs_connect [OF assms(1) None established(1) st(1) this] show ?thesis by blast
  next
    case (Some old)
    obtain res0 c0 g0 where e: "establish_session wenv cfg (c1\<lparr>session_state := None\<rparr>) tc (sy_gw S) = (res0, c0, g0)"
      "session_state c0 = session_state client'" "sy_gw S' = drop_connection_state old g0"
      by (rule establish_replaces [OF established(1) Some])
    let ?S = "S\<lparr>sy_gw := g0, sy_conns := sy_conns S @ [c\<lparr>tk_client := client'\<rparr>]\<rparr>"
    have "life_step (abs_world S) (abs_world ?S)"
      by (rule abs_connect [OF assms(1) _ e(1), of st]) (simp_all add: e(2) st sessions_def session_of_def)
    moreover have "next_slot (sy_gw S') = next_slot g0" by (simp add: e(3) drop_connection_state_def unregister_cancel_def)
    ultimately have "life_inv (abs_world ?S)"
      using life_step_inv [OF _ assms(1)] assms(2) by (simp add: abs_world_def)
    moreover have "mset (sessions S') + {#base_state old#} = mset (sessions ?S)"
      using new Some established(2) st(1,4) by (simp add: sessions_def session_of_def)
    ultimately have "life_step (abs_world ?S) (abs_world S')" by (rule abs_remove) (simp add: e(3))
    with \<open>life_step (abs_world S) (abs_world ?S)\<close> show ?thesis by (meson r_into_rtranclp rtranclp.rtrancl_into_rtrancl)
  qed
qed

lemma work_ok:
  assumes "phase (tk_client c) = ReadyForQuery" and "conn_ok c" and "session_step D (conn_of S c) k"
    and "c' = c\<lparr>tk_client := cn_client k, tk_streams := cn_streams k\<rparr>"
  obtains cs x where "conn_ok c'" and "session_of c = [base_state cs]" and "session_of c' = session_of c"
    and "cn_gw k = set_active_query_id (Some (cs_active_query_id cs)) x (sy_gw S)"
proof -
  obtain cs where cs: "session_state (tk_client c) = Some cs" using assms(1,2) by (auto simp: conn_ok_def split: option.splits)
  note own = session_step_own [OF assms(3) conn_ok_session [OF assms(2) cs]]
  then obtain cache where cache: "session_state (cn_client k) = Some ((base_state cs)\<lparr>cs_portals := cache\<rparr>)"
      "own_cache (cs_active_query_id cs) cache" "\<forall>st \<in> set (cn_streams k). rs_slot st = Some (cs_active_query_id cs)"
    by (auto simp: session_ok_def)
  have "phase (cn_client k) = ReadyForQuery"
    using session_step_keeps_client [OF assms(3)] assms(1) by (auto simp: conn_of_def)
  with cache have "conn_ok c'" by (simp add: conn_ok_def assms(4))
  moreover have "session_of c' = session_of c" "session_of c = [base_state cs]"
    using cache cs by (simp_all add: session_of_def assms(4))
  moreover obtain x where "cn_gw k = set_active_query_id (Some (cs_active_query_id cs)) x (sy_gw S)"
    using own by (auto simp: own_write_def conn_of_def)
  ultimately show thesis by (blast intro: that)
qed

lemma work_simulates:
  assumes "life_inv (abs_world S)" and "i < length (sy_conns S)" and "sy_conns S ! i = c"
    and "phase (tk_client c) = ReadyForQuery" and "conn_ok c" and "session_step D (conn_of S c) k"
    and "sy_gw S' = cn_gw k" and "sy_conns S' = (sy_conns S)[i := c\<lparr>tk_client := cn_client k, tk_streams := cn_streams k\<rparr>]"
  shows "life_step (abs_world S) (abs_world S')"
proof -
  obtain cs x where of: "session_of c = [base_state cs]"
      "session_of (c\<lparr>tk_client := cn_client k, tk_streams := cn_streams k\<rparr>) = session_of c"
      and x: "cn_gw k = set_active_query_id (Some (cs_active_query_id cs)) x (sy_gw S)"
    by (rule work_ok [OF assms(4-6) refl])
  with sessions_update [OF assms(2,8)] assms(3) have m: "mset (sessions S') = mset (sessions S)" by simp
  have "base_state cs \<in> set (live (abs_world S))"
    using of(1) assms(3) nth_mem [OF assms(2)] by (auto simp: abs_world_def sessions_def intro!: bexI [of _ c])
  from life_step.run_query [OF this, of x]
  have "life_step (abs_world S) ((abs_world S)\<lparr>gw := cn_gw k\<rparr>)" by (simp add: x abs_world_def)
  moreover have "latest_first (sessions S') = latest_first (sessions S)"
    using latest_first_cong [OF m [symmetric]] abs_live(2) [OF assms(1)] by simp
  moreover have "next_slot (cn_gw k) = next_slot (sy_gw S)" by (simp add: x set_active_query_id_def)
  ultimately show ?thesis using assms(7) by (simp add: abs_world_def)
qed

lemma close_simulates:
  assumes "life_inv (abs_world S)" and "i < length (sy_conns S)" and "sy_conns S ! i = c" and "conn_ok c"
    and "sy_gw S' = close_session (session_state (tk_client c)) (sy_gw S)" and "sy_conns S' = remove_nth i (sy_conns S)"
  shows "life_step\<^sup>*\<^sup>* (abs_world S) (abs_world S')"
proof -
  have m: "mset (sessions S') + mset (session_of c) = mset (sessions S)"
    using concat_remove_nth [OF assms(2), of session_of] assms(3,6) by (simp add: sessions_def)
  show ?thesis
  proof (cases "session_state (tk_client c)")
    case None
    with m assms(5) have "mset (sessions S') = mset (sessions S)" "sy_gw S' = sy_gw S"
      by (simp_all add: session_of_def close_session_def)
    from abs_world_cong [OF assms(1) this] show ?thesis by simp
  next
    case (Some cs)
    with m assms(5) close_session_ok [OF assms(4) Some] have
      "mset (sessions S') + {#base_state cs#} = mset (sessions S)"
      "sy_gw S' = drop_connection_state (base_state cs) (sy_gw S)"
      by (simp_all add: session_of_def)
    from abs_remove [OF assms(1) this] show ?thesis by blast
  qed
qed

lemma spawn_conn_props:
  "list_all conn_ok (spawn_conn secure srv srv')" "concat (map session_of (spawn_conn secure srv srv')) = []"
  by (simp_all add: spawn_conn_def conn_ok_def session_of_def new_client_def)

lemma next_slot_drop [simp]: "next_slot (drop_connection_state st g) = next_slot g"
  by (simp add: drop_connection_state_def unregister_cancel_def)

lemma expected_not_ready: "expected_in p msg \<Longrightarrow> p \<noteq> ReadyForQuery"
  by (cases msg) auto

lemma startup_handler_main [simp]:
  "startup_handler (main_factory D) wenv client msg g = on_startup wenv (dp_config D) client msg g"
  by (simp add: main_factory_def new_handler_factory_def)

lemma system_step_ok:
  assumes "system_step D S S'" and "list_all conn_ok (sy_conns S)"
  shows "list_all conn_ok (sy_conns S') \<and> next_slot (sy_gw S) \<le> next_slot (sy_gw S')"
proof -
  have ok: "conn_ok (sy_conns S ! i)" if "i < length (sy_conns S)" for i
    using assms(2) that by (simp add: list_all_length)
  from assms(1) show ?thesis
  proof cases
    case (handshake i c msg wenv res client' g')
    from handshake_ok [of wenv "dp_config D" c msg "sy_gw S" res client' g'] ok [OF handshake(2)] handshake assms(2) show ?thesis
      by (auto simp: list_all_update dest: expected_not_ready)
  next
    case (work i c k)
    show ?thesis
      by (rule work_ok [OF work(4) _ work(5) refl])
         (use ok [OF work(2)] work(1,3) assms(2) in \<open>auto simp: list_all_update set_active_query_id_def\<close>)
  next
    case (close i c)
    have "next_slot (sy_gw S') = next_slot (sy_gw S)"
      using close_session_ok [of c _ "sy_gw S"] ok [OF close(2)] close(1,3)
      by (cases "session_state (tk_client c)") (auto simp: close_session_def)
    with assms(2) close(1) show ?thesis by (simp add: list_all_remove_nth)
  qed (use assms(2) in \<open>auto simp: spawn_conn_props\<close>)
qed

lemma system_step_simulates:
  assumes "system_step D S S'" and "life_inv (abs_world S)" and "list_all conn_ok (sy_conns S)"
    and "established (abs_world S') \<le> 2 ^ 32"
  shows "life_step\<^sup>*\<^sup>* (abs_world S) (abs_world S')"
proof -
  have ok: "conn_ok (sy_conns S ! i)" if "i < length (sy_conns S)" for i
    using assms(3) that by (simp add: list_all_length)
  from assms(1) show ?thesis
  proof cases
    case (serve srv sd acc secure)
    have "abs_world S' = abs_world S"
      by (rule abs_world_cong [OF assms(2)]) (simp_all add: serve(1) sessions_def spawn_conn_props)
    then show ?thesis by simp
  next
    case (handshake i c msg wenv res client' g')
    then show ?thesis
      by (intro handshake_simulates [OF assms(2,4) handshake(2,3), of wenv "dp_config D" msg res client']) simp_all
  next
    case (work i c k)
    from work_simulates [OF assms(2) work(2-4) _ work(5), of S'] ok [OF work(2)] work(1,3) show ?thesis by auto
  next
    case (close i c)
    from close_simulates [OF assms(2) close(2,3), of S'] ok [OF close(2)] close(1,3) show ?thesis by simp
  qed (simp_all add: abs_world_def sessions_def)
qed

lemma life_steps_reach: "life_step\<^sup>*\<^sup>* w w' \<Longrightarrow> life_reach w \<Longrightarrow> life_reach w'"
  by (induction rule: rtranclp_induct) (auto intro: life_reach.step)

lemma system_reach_ok: "system_reach D S \<Longrightarrow> list_all conn_ok (sy_conns S)"
proof (induction rule: system_reach.induct)
  case (step S S')
  then show ?case using system_step_ok by blast
qed (simp add: init_system_def)

lemma system_reach_simulates:
  assumes "system_reach D S" and "next_slot (sy_gw S) \<le> 2 ^ 32"
  shows "life_reach (abs_world S) \<and> life_inv (abs_world S)"
  using assms
proof (induction rule: system_reach.induct)
  case (start s)
  have "abs_world (init_system (dp_config D) s) = init_world"
    by (simp add: abs_world_def init_system_def init_world_def init_gateway_def sessions_def latest_first_def)
  then show ?case by (simp add: life_reach.start life_inv_init)
next
  case (step S S')
  note ok = system_reach_ok [OF step.hyps(1)]
  have "next_slot (sy_gw S) \<le> next_slot (sy_gw S')" using system_step_ok [OF step.hyps(2) ok] by simp
  with step have ih: "life_reach (abs_world S)" "life_inv (abs_world S)" by auto
  have e: "established (abs_world S') \<le> 2 ^ 32" using step.prems by (simp add: abs_world_def)
  from life_steps_reach [OF system_step_simulates [OF step.hyps(2) ih(2) ok e] ih(1)] e show ?case
    using life_reach_inv by blast
qed

section \<open>The accept loop\<close>

text \<open>One connection per running task.\<close>

lemma spawn_conn_running:
  assumes "srv' = serve_poll sd acc srv"
  shows "mset (running srv') = mset (map tk_id (spawn_conn secure srv srv')) + mset (running srv)"
  using assms by (auto simp: serve_poll_def spawn_conn_def split: list.splits option.splits sum.splits)

lemma system_step_server:
  assumes "system_step D S S'" and "serve_reach m (sy_server S)" and "mset (map tk_id (sy_conns S)) = mset (running (sy_server S))"
  shows "serve_reach m (sy_server S') \<and> mset (map tk_id (sy_conns S')) = mset (running (sy_server S'))"
  using assms(1)
proof cases
  case (serve srv sd acc secure)
  with assms spawn_conn_running [OF serve(3), of secure] show ?thesis
    by (auto intro: serve_reach.step serve_step.poll)
next
  case (joinable t)
  with serve_reach.step [OF assms(2) serve_step.joinable [OF joinable(2)]] assms(3) show ?thesis
    by (simp add: task_done_def)
next
  case (close i c)
  have "add_mset (tk_id c) (mset (map tk_id (sy_conns S'))) = mset (running (sy_server S))"
    using mset_remove_nth [of i "map tk_id (sy_conns S)"] close(1-3) assms(3) by (simp add: map_remove_nth)
  moreover from this have "tk_id c \<in> set (running (sy_server S))" by (metis set_mset_mset union_single_eq_member)
  ultimately have "serve_reach m (task_exit (tk_id c) (sy_server S))"
      "mset (map tk_id (sy_conns S')) = mset (remove1 (tk_id c) (running (sy_server S)))"
    by (auto intro: serve_reach.step [OF assms(2)] serve_step.exits simp flip: add_mset_remove_trivial_eq) (metis add_mset_remove_trivial)
  then show ?thesis by (simp add: close(1) task_exit_def)
next
  case (handshake i c msg wenv res client' g')
  with assms(2,3) map_update_same [of tk_id "c\<lparr>tk_client := client'\<rparr>" "sy_conns S" i] show ?thesis by simp
next
  case (work i c k)
  with assms(2,3) map_update_same [of tk_id "c\<lparr>tk_client := cn_client k, tk_streams := cn_streams k\<rparr>" "sy_conns S" i]
  show ?thesis by simp
qed (use assms(2,3) in simp)

lemma system_reach_server:
  "system_reach D S \<Longrightarrow>
     serve_reach (max_connections (dp_config D)) (sy_server S) \<and> mset (map tk_id (sy_conns S)) = mset (running (sy_server S))"
proof (induction rule: system_reach.induct)
  case (start s)
  show ?case by (simp add: init_system_def serve_reach.start) (simp add: init_server_def)
next
  case (step S S')
  then show ?case using system_step_server by blast
qed

section \<open>What a session may be\<close>

text \<open>
  A Trino client as the configuration has it. With authentication it carries the credentials of the
  session's user, which Trino accepted; without, the configured user and no password.
\<close>

definition client_allowed :: "'s deployment \<Rightarrow> trino_client \<Rightarrow> bool" where
  "client_allowed D tc \<longleftrightarrow>
     cl_host tc = trino_host (dp_config D) \<and> cl_secure tc = trino_ssl (dp_config D)
     \<and> cl_no_verify tc = trino_tls_no_verify (dp_config D)
     \<and> (if auth (dp_config D)
        then dp_accepts D tc \<and> map_option fst (cl_auth tc) = Some (cl_user tc)
             \<and> cl_auth_http_insecure tc = trino_allow_plaintext_auth (dp_config D)
        else cl_auth tc = None \<and> cl_user tc = trino_user (dp_config D))"

definition client_authorised :: "'s deployment \<Rightarrow> session_client \<Rightarrow> bool" where
  "client_authorised D client \<longleftrightarrow>
     (phase client = AuthenticationInProgress \<longrightarrow> may_authenticate (dp_config D) client)
     \<and> (auth (dp_config D) \<and> phase client = AwaitingStartup \<longrightarrow> session_state client = None)
     \<and> (case session_state client of
          None \<Rightarrow> True
        | Some cs \<Rightarrow> cs_config cs = dp_config D \<and> client_allowed D (cs_trino_client cs)
            \<and> (auth (dp_config D) \<longrightarrow> may_authenticate (dp_config D) client
                 \<and> cl_user (cs_trino_client cs) = session_user client))"

lemma client_authorised_startup:
  assumes "on_startup wenv (dp_config D) client msg g = (res, client', g')" and "client_authorised D client"
    and "expected_in (phase client) msg" and "\<And>tc. check_error wenv tc = None \<Longrightarrow> dp_accepts D tc"
  shows "client_authorised D client'"
  using assms(1)
proof (cases rule: on_startup_cases)
  case same
  with assms(2,3) show ?thesis by (auto simp: client_authorised_def may_authenticate_def split: option.splits)
next
  case (established c1 tc)
  have "client_allowed D tc
      \<and> (auth (dp_config D) \<longrightarrow> phase client = AuthenticationInProgress \<and> cl_user tc = session_user client
           \<and> session_user c1 = session_user client)"
    using established(5,6) assms(2-4)
    by (auto simp: credentials_for_def client_allowed_def client_authorised_def may_authenticate_def
        build_trino_client_settings split: frontend_message.splits sum.splits)
  moreover obtain st where "session_state client' = Some st" "cs_trino_client st = tc" "cs_config st = dp_config D"
      "is_secure client' = is_secure client" "phase client' = phase client \<or> phase client' = ReadyForQuery"
      "session_user client' = session_user c1"
    using established(3,4) by (auto intro: establish_fields [OF established(1)])
  ultimately show ?thesis using assms(2) by (auto simp: client_authorised_def may_authenticate_def)
qed

lemma client_authorised_work:
  assumes "client_authorised D (tk_client c)" and "conn_ok c" and "phase (tk_client c) = ReadyForQuery"
    and "session_step D (conn_of S c) k"
  shows "client_authorised D (cn_client k)"
proof -
  obtain x where x: "cn_client k = (tk_client c)\<lparr>session_state := x\<rparr>"
    using session_step_keeps_client [OF assms(4)] by (auto simp: conn_of_def)
  obtain cs where cs: "session_state (tk_client c) = Some cs" using assms(2,3) by (auto simp: conn_ok_def split: option.splits)
  obtain cache where "session_state (cn_client k) = Some ((base_state cs)\<lparr>cs_portals := cache\<rparr>)"
    using session_step_own [OF assms(4) conn_ok_session [OF assms(2) cs]] by (auto simp: session_ok_def)
  with assms(1,3) x cs show ?thesis by (auto simp: client_authorised_def may_authenticate_def session_user_def)
qed

lemma system_step_authorised:
  assumes "system_step D S S'" and "list_all conn_ok (sy_conns S)" and "list_all (client_authorised D \<circ> tk_client) (sy_conns S)"
  shows "list_all (client_authorised D \<circ> tk_client) (sy_conns S')"
proof -
  have ok: "conn_ok (sy_conns S ! i)" "client_authorised D (tk_client (sy_conns S ! i))" if "i < length (sy_conns S)" for i
    using assms(2,3) that by (simp_all add: list_all_length)
  from assms(1) show ?thesis
  proof cases
    case (serve srv sd acc secure)
    with assms(3) show ?thesis by (simp add: spawn_conn_def client_authorised_def new_client_def)
  next
    case (handshake i c msg wenv res client' g')
    have "on_startup wenv (dp_config D) (tk_client c) msg (sy_gw S) = (res, client', g')" using handshake(6) by simp
    from client_authorised_startup [OF this _ handshake(4,5)] ok(2) [OF handshake(2)] handshake(3)
    have "client_authorised D client'" by simp
    with assms(3) show ?thesis by (simp add: handshake(1) list_all_update)
  next
    case (work i c k)
    from client_authorised_work [OF _ _ work(4,5)] ok [OF work(2)] work(3)
    have "client_authorised D (cn_client k)" by simp
    with assms(3) show ?thesis by (simp add: work(1) list_all_update)
  qed (use assms(3) in \<open>auto simp: list_all_remove_nth\<close>)
qed

lemma system_reach_authorised: "system_reach D S \<Longrightarrow> list_all (client_authorised D \<circ> tk_client) (sy_conns S)"
proof (induction rule: system_reach.induct)
  case (step S S')
  then show ?case using system_step_authorised system_reach_ok by blast
qed (simp add: init_system_def)

section \<open>The registry\<close>

lemma registry_view_dom: "dom (registry_view cs) = cs_cancel_key ` set cs"
proof -
  have "k \<in> dom (registry_view cs) \<longleftrightarrow> k \<in> cs_cancel_key ` set cs" for k
    using registry_view_None [of cs k] by (simp add: domIff)
  then show ?thesis by blast
qed

lemma registry_card:
  assumes "life_inv (abs_world S)"
  shows "dom (registry (sy_gw S)) = cs_cancel_key ` set (sessions S) \<and> card (dom (registry (sy_gw S))) = length (sessions S)"
proof -
  have d: "dom (registry (sy_gw S)) = cs_cancel_key ` set (sessions S)"
    using assms by (simp add: life_inv_def abs_world_def registry_view_dom)
  have "distinct (map (fst \<circ> cs_cancel_key) (latest_first (sessions S)))"
    using assms by (simp add: life_inv_def abs_world_def)
  then have "inj_on (fst \<circ> cs_cancel_key) (set (sessions S))" by (simp add: distinct_map)
  then have "card (cs_cancel_key ` set (sessions S)) = card (set (sessions S))"
    by (intro card_image) (rule inj_on_imageI2)
  with d distinct_card [OF abs_live(1) [OF assms]] show ?thesis by simp
qed

lemma sessions_le_conns: "length (sessions S) \<le> length (sy_conns S)"
proof -
  have "length (concat (map session_of cs)) \<le> length cs" for cs
    by (induction cs) (auto simp: session_of_def split: option.splits)
  then show ?thesis by (simp add: sessions_def)
qed

lemma cancel_handler_main [simp]: "cancel_handler (main_factory D) pid secret g = on_cancel_request pid secret g"
  by (simp add: main_factory_def new_handler_factory_def)

section \<open>Sample runs\<close>

definition sample_deployment :: "config \<Rightarrow> conv \<Rightarrow> nat deployment" where
  "sample_deployment cfg cv = \<lparr>dp_config = cfg, dp_pipe = sample_pipe, dp_conv = cv, dp_accepts = (\<lambda>_. True)\<rparr>"

text \<open>Connections of the sample deployments: accepted, and after a step of the handshake.\<close>

lemma sample_accepted:
  assumes "0 < max_connections cfg"
  shows "\<exists>S. system_reach (sample_deployment cfg cv) S
    \<and> sy_conns S = [\<lparr>tk_id = 0, tk_client = new_client False, tk_streams = []\<rparr>] \<and> sy_gw S = init_gateway \<and> sy_svc S = 0"
proof -
  let ?D = "sample_deployment cfg cv" and ?S = "init_system cfg (0 :: nat)"
  let ?srv = "serve_poll False (Some (Inr ())) (sy_server ?S)"
  have "system_step ?D ?S (?S\<lparr>sy_server := ?srv, sy_conns := spawn_conn False (sy_server ?S) ?srv @ sy_conns ?S\<rparr>)"
    by (rule system_step.serve) (simp_all add: init_system_def init_server_def)
  moreover have "system_reach ?D ?S" using system_reach.start [of ?D 0] by (simp add: sample_deployment_def)
  ultimately have "system_reach ?D (?S\<lparr>sy_server := ?srv, sy_conns := spawn_conn False (sy_server ?S) ?srv @ sy_conns ?S\<rparr>)"
    by (rule system_reach.step [rotated])
  with assms show ?thesis
    by (intro exI [of _ "?S\<lparr>sy_server := ?srv, sy_conns := spawn_conn False (sy_server ?S) ?srv @ sy_conns ?S\<rparr>"])
       (simp add: init_system_def init_server_def spawn_conn_def serve_poll_def)
qed

lemma sample_handshake:
  assumes "system_reach (sample_deployment cfg cv) S" and "sy_conns S = [c]" and "expected_in (phase (tk_client c)) msg"
    and "on_startup sample_env cfg (tk_client c) msg (sy_gw S) = (res, client', g')"
  shows "\<exists>S'. system_reach (sample_deployment cfg cv) S' \<and> sy_conns S' = [c\<lparr>tk_client := client'\<rparr>]
    \<and> sy_gw S' = g' \<and> sy_svc S' = sy_svc S"
proof -
  have "system_step (sample_deployment cfg cv) S (S\<lparr>sy_gw := g', sy_conns := (sy_conns S)[0 := c\<lparr>tk_client := client'\<rparr>]\<rparr>)"
    by (rule system_step.handshake [where wenv = sample_env and msg = msg and res = res])
       (use assms in \<open>simp_all add: sample_deployment_def\<close>)
  from system_reach.step [OF assms(1) this] assms(2) show ?thesis by (intro exI) auto
qed

lemma sample_session_reached:
  "\<exists>S c cs. system_reach (sample_deployment default_config cv) S \<and> sy_conns S = [c] \<and> session_state (tk_client c) = Some cs
     \<and> cs_active_query_id cs = 0 \<and> next_slot (sy_gw S) = 1 \<and> sy_svc S = 0
     \<and> phase (tk_client c) = ReadyForQuery \<and> cs_config cs = default_config \<and> tk_streams c = []"
proof -
  let ?cl = "new_client False :: session_client"
  obtain S where S: "system_reach (sample_deployment default_config cv) S" "sy_gw S = init_gateway" "sy_svc S = 0"
      "sy_conns S = [\<lparr>tk_id = 0, tk_client = ?cl, tk_streams = []\<rparr>]"
    using sample_accepted [of default_config cv] by (auto simp: default_config_def)
  obtain r c' g' where e: "on_startup sample_env default_config ?cl (StartupMessage []) init_gateway = (r, c', g')"
    by (metis prod_cases3)
  obtain tc where tc: "build_trino_client sample_env default_config None None = Inr tc"
    by (simp add: build_trino_client_def sample_env_def Let_def)
  have "establish_session sample_env default_config (?cl\<lparr>metadata := metadata ?cl ++ map_of (rev [])\<rparr>) tc init_gateway = (r, c', g')"
    using e tc by (simp add: on_startup_def sample_env_def default_config_def Let_def)
  then obtain cs where cs: "session_state c' = Some cs" "cs_active_query_id cs = 0" "next_slot g' = 1"
      "phase c' = ReadyForQuery" "cs_config cs = default_config"
    by (auto simp: establish_session_def new_pid_and_secret_key_def register_cancel_def Let_def sample_env_def new_client_def
        init_gateway_def)
  have "expected_in (phase ?cl) (StartupMessage [])" by (simp add: new_client_def)
  with sample_handshake [OF S(1,4), of "StartupMessage []" r c' g'] e S(2) obtain S' where
    S': "system_reach (sample_deployment default_config cv) S'" "sy_gw S' = g'" "sy_svc S' = sy_svc S"
      "sy_conns S' = [\<lparr>tk_id = 0, tk_client = c', tk_streams = []\<rparr>]"
    by auto
  with cs S(3) show ?thesis
    by (intro exI [of _ S'] exI [of _ "\<lparr>tk_id = 0, tk_client = c', tk_streams = []\<rparr>"] exI [of _ cs]) simp
qed

lemma sample_password_session:
  "\<exists>S c cs. system_reach (sample_deployment (default_config\<lparr>auth := True, trino_ssl := True\<rparr>) cv) S
     \<and> sy_conns S = [c] \<and> session_state (tk_client c) = Some cs \<and> session_user (tk_client c) = ''alice''"
proof -
  let ?cfg = "default_config\<lparr>auth := True, trino_ssl := True\<rparr>" and ?cl = "new_client False :: session_client"
  obtain S where S: "system_reach (sample_deployment ?cfg cv) S" "sy_gw S = init_gateway"
      "sy_conns S = [\<lparr>tk_id = 0, tk_client = ?cl, tk_streams = []\<rparr>]"
    using sample_accepted [of ?cfg cv] by (auto simp: default_config_def)
  obtain r c1 g1 where e1: "on_startup sample_env ?cfg ?cl (StartupMessage [(''user'', ''alice'')]) init_gateway = (r, c1, g1)"
    by (metis prod_cases3)
  then have c1: "phase c1 = AuthenticationInProgress" "session_user c1 = ''alice''"
    by (auto simp: session_user_def on_startup_def sample_env_def default_config_def tls_required_def Let_def)
  obtain S1 where S1: "system_reach (sample_deployment ?cfg cv) S1" "sy_gw S1 = g1"
      "sy_conns S1 = [\<lparr>tk_id = 0, tk_client = c1, tk_streams = []\<rparr>]"
    using sample_handshake [OF S(1,3), of "StartupMessage [(''user'', ''alice'')]" r c1 g1] e1 S(2)
    by (auto simp: new_client_def)
  obtain r2 c2 g2 where e2: "on_startup sample_env ?cfg c1 (PasswordMessageFamily (Inr ''pw'')) g1 = (r2, c2, g2)"
    by (metis prod_cases3)
  then obtain cs where cs: "session_state c2 = Some cs" "session_user c2 = ''alice''"
    using c1(2)
    by (auto simp: on_startup_def build_trino_client_def sample_env_def Let_def elim!: establish_fields)
  from sample_handshake [OF S1(1,3), of "PasswordMessageFamily (Inr ''pw'')" r2 c2 g2] e2 S1(2) c1 cs show ?thesis by force
qed

end
