(* ===== verification/Wind_Down.thy ===== *)
theory Wind_Down
  imports Gateway_System
begin

text \<open>
  Winding the gateway down: when clients send nothing more, what is left are streams to drop, connections
  to close and tasks to become joinable, in any order. These are steps of the system; every sequence of
  them is bounded by the work that is left, and it can only stop where everything has been given back.
\<close>

section \<open>The steps that end work\<close>

inductive unwind_step :: "'s gw_system \<Rightarrow> 's gw_system \<Rightarrow> bool" where
  drop: "i < length (sy_conns S) \<Longrightarrow> sy_conns S ! i = c \<Longrightarrow> j < length (tk_streams c) \<Longrightarrow>
     unwind_step S (S\<lparr>sy_gw := drop_stream (tk_streams c ! j) (sy_gw S),
       sy_conns := (sy_conns S)[i := c\<lparr>tk_streams := remove_nth j (tk_streams c)\<rparr>]\<rparr>)"
| close: "i < length (sy_conns S) \<Longrightarrow> sy_conns S ! i = c \<Longrightarrow> tk_streams c = [] \<Longrightarrow>
     unwind_step S (S\<lparr>sy_gw := close_session (session_state (tk_client c)) (sy_gw S),
       sy_server := task_exit (tk_id c) (sy_server S), sy_conns := remove_nth i (sy_conns S)\<rparr>)"
| joinable: "t \<in> set (exiting (sy_server S)) \<Longrightarrow>
     unwind_step S (S\<lparr>sy_server := task_done t (sy_server S)\<rparr>)"

text \<open>The work left: a step per stream, two per connection, one per task that has yet to become joinable.\<close>

definition work_left :: "'s gw_system \<Rightarrow> nat" where
  "work_left S = sum_list (map (length \<circ> tk_streams) (sy_conns S)) + 2 * length (sy_conns S) + length (exiting (sy_server S))"

text \<open>Everything given back: no connection, no entry of the registry, all permits, all tasks joinable.\<close>

definition wound_down :: "config \<Rightarrow> 's gw_system \<Rightarrow> bool" where
  "wound_down cfg S \<longleftrightarrow> sy_conns S = [] \<and> registry (sy_gw S) = Map.empty \<and> permits (sy_server S) = max_connections cfg
     \<and> running (sy_server S) = [] \<and> exiting (sy_server S) = []"

section \<open>Lemmas\<close>

lemma length_remove_nth: "i < length xs \<Longrightarrow> Suc (length (remove_nth i xs)) = length xs"
  by (simp add: remove_nth_def)

lemma sum_list_remove_nth: "i < length xs \<Longrightarrow> f (xs ! i) + sum_list (map f (remove_nth i xs)) = (sum_list (map f xs) :: nat)"
  using arg_cong [OF mset_remove_nth [of i xs], of "\<lambda>m. sum_mset (image_mset f m)"] by (simp add: sum_mset_sum_list flip: mset_map)

lemma sum_list_update_nth: "i < length xs \<Longrightarrow> sum_list (map f (xs[i := y])) + f (xs ! i) = sum_list (map f xs) + (f y :: nat)"
  using arg_cong [OF id_take_nth_drop [of i xs], of "\<lambda>ys. sum_list (map f ys)"] upd_conv_take_nth_drop [of i xs y] by simp

lemma unwind_decreases: "unwind_step S S' \<Longrightarrow> work_left S' < work_left S"
proof (induction rule: unwind_step.induct)
  case (drop i S c j)
  show ?case
    using sum_list_update_nth [OF drop(1), of "length \<circ> tk_streams" "c\<lparr>tk_streams := remove_nth j (tk_streams c)\<rparr>"]
      length_remove_nth [OF drop(3)] drop(2) by (simp add: work_left_def)
next
  case (close i S c)
  show ?case
    using sum_list_remove_nth [OF close(1), of "length \<circ> tk_streams"] length_remove_nth [OF close(1)] close(2,3)
    by (simp add: work_left_def task_exit_def)
next
  case (joinable t S)
  then show ?case using length_remove1_Suc [OF joinable] by (simp add: work_left_def task_done_def)
qed

interpretation unwinding: ranked_steps unwind_step work_left
  by unfold_locales (rule unwind_decreases)

lemma unwind_system:
  assumes "unwind_step S S'" and "list_all conn_ok (sy_conns S)"
  shows "system_step D S S' \<and> next_slot (sy_gw S') = next_slot (sy_gw S) \<and> sy_svc S' = sy_svc S
    \<and> sphase (sy_server S') = sphase (sy_server S) \<and> spawned (sy_server S') = spawned (sy_server S)"
  using assms(1)
proof cases
  case (drop i c j)
  have "conn_ok c" using assms(2) drop(2,3) by (auto simp: list_all_iff)
  then have ready: "phase (tk_client c) = ReadyForQuery" using drop(4) by (auto simp: conn_ok_def)
  have "session_step D (conn_of S c) ((conn_of S c)\<lparr>cn_streams := remove_nth j (tk_streams c),
      cn_gw := drop_stream (tk_streams c ! j) (sy_gw S)\<rparr>)"
    using session_step.discard [of j "conn_of S c" D] drop(4) by (simp add: conn_of_def remove_nth_def)
  from system_step.work [OF drop(2,3) ready this] show ?thesis
    by (simp add: drop(1) conn_of_def drop_stream_def set_active_query_id_def split: option.splits)
next
  case (close i c)
  have "conn_ok c" using assms(2) close(2,3) by (auto simp: list_all_iff)
  then have "next_slot (close_session (session_state (tk_client c)) g) = next_slot g" for g
    using close_session_ok [of c _ g] by (cases "session_state (tk_client c)") (simp_all add: close_session_def)
  with system_step.close [OF close(2-4), of D] show ?thesis by (simp add: close(1) task_exit_def)
next
  case (joinable t)
  with system_step.joinable [of t S D] show ?thesis by (simp add: task_done_def)
qed

lemma unwind_reach:
  assumes "unwind_step\<^sup>*\<^sup>* S S'" and "system_reach D S"
  shows "system_reach D S' \<and> (system_step D)\<^sup>*\<^sup>* S S' \<and> next_slot (sy_gw S') = next_slot (sy_gw S) \<and> sy_svc S' = sy_svc S
    \<and> sphase (sy_server S') = sphase (sy_server S) \<and> spawned (sy_server S') = spawned (sy_server S)"
  using assms
proof (induction rule: rtranclp_induct)
  case (step T U)
  then have T: "system_reach D T" by simp
  from unwind_system [OF step.hyps(2) system_reach_ok [OF T], of D] step show ?case
    by (auto intro: system_reach.step rtranclp.rtrancl_into_rtrancl)
qed simp

lemma unwind_stuck:
  assumes "\<nexists>T. unwind_step S T"
  shows "sy_conns S = []" and "exiting (sy_server S) = []"
proof -
  show "sy_conns S = []"
  proof (cases "sy_conns S")
    case (Cons c cs)
    then show ?thesis using assms unwind_step.drop [of 0 S c 0] unwind_step.close [of 0 S c] by auto
  qed
  show "exiting (sy_server S) = []"
    using assms unwind_step.joinable [of "hd (exiting (sy_server S))" S] by (cases "exiting (sy_server S)") auto
qed

lemma stuck_wound_down:
  assumes "system_reach D S" and "next_slot (sy_gw S) \<le> 2 ^ 32" and "\<nexists>T. unwind_step S T"
  shows "wound_down (dp_config D) S"
proof -
  note stuck = unwind_stuck [OF assms(3)] and srv = system_reach_server [OF assms(1)]
  have inv: "life_inv (abs_world S)" using system_reach_simulates [OF assms(1,2)] by blast
  have "registry (sy_gw S) = Map.empty" using registry_card [OF inv] stuck(1) by (simp add: sessions_def)
  moreover have "running (sy_server S) = []" using srv stuck(1) by simp
  moreover have "serve_inv (max_connections (dp_config D)) (sy_server S)" using serve_reach_inv srv by blast
  ultimately show ?thesis using stuck by (simp add: wound_down_def serve_inv_def)
qed

section \<open>Properties\<close>

text \<open>C7. The gateway winds down. From every reachable state of the system, once nothing new arrives, any
  sequence of stream drops, closes and task ends, in whatever order, is at most as long as the work left,
  and it can only stop where no connection, no cancel key and no running task is left and every permit is
  back; such a state is reached, by steps of the system, without another query or session and
  without a change of the accept loop's phase. Nothing can leak or get stuck.\<close>

theorem gateway_winds_down:
  assumes "system_reach D S" and "next_slot (sy_gw S) \<le> 2 ^ 32"
  shows "(\<forall>n S'. (unwind_step ^^ n) S S' \<longrightarrow> n \<le> work_left S)
    \<and> (\<forall>S'. unwind_step\<^sup>*\<^sup>* S S' \<and> (\<nexists>T. unwind_step S' T) \<longrightarrow> wound_down (dp_config D) S')
    \<and> (\<exists>S'. (system_step D)\<^sup>*\<^sup>* S S' \<and> wound_down (dp_config D) S' \<and> sy_svc S' = sy_svc S
         \<and> next_slot (sy_gw S') = next_slot (sy_gw S) \<and> sphase (sy_server S') = sphase (sy_server S))"
proof -
  have stop: "wound_down (dp_config D) S'" if "unwind_step\<^sup>*\<^sup>* S S'" "\<nexists>T. unwind_step S' T" for S'
    using unwind_reach [OF that(1) assms(1)] assms(2) that(2) by (auto intro: stuck_wound_down)
  have "n \<le> work_left S" if "(unwind_step ^^ n) S S'" for n S' using unwinding.bounded [OF that] by simp
  moreover obtain S' where "unwind_step\<^sup>*\<^sup>* S S'" "\<nexists>T. unwind_step S' T" using unwinding.ends by blast
  ultimately show ?thesis using stop unwind_reach [of S S' D] assms(1) by blast
qed

theorem gateway_winds_down_witness:
  "\<forall>cv. \<exists>S S'. system_reach (sample_deployment default_config cv) S \<and> length (sy_conns S) = 1
     \<and> (system_step (sample_deployment default_config cv))\<^sup>*\<^sup>* S S' \<and> wound_down default_config S' \<and> sy_svc S' = 0"
proof
  fix cv
  obtain S c where S: "system_reach (sample_deployment default_config cv) S" "sy_conns S = [c]" "next_slot (sy_gw S) = 1" "sy_svc S = 0"
    using sample_session_reached [of cv] by blast
  have "dp_config (sample_deployment default_config cv) = default_config" by (simp add: sample_deployment_def)
  with gateway_winds_down [OF S(1)] S obtain S' where "(system_step (sample_deployment default_config cv))\<^sup>*\<^sup>* S S'"
    "wound_down default_config S'" "sy_svc S' = 0" by auto
  with S show "\<exists>S S'. system_reach (sample_deployment default_config cv) S \<and> length (sy_conns S) = 1
     \<and> (system_step (sample_deployment default_config cv))\<^sup>*\<^sup>* S S' \<and> wound_down default_config S' \<and> sy_svc S' = 0"
    by (intro exI [of _ S] exI [of _ S']) simp
qed

end
