(* ===== verification/Cancel_Window.thy ===== *)
theory Cancel_Window
  imports Gateway_System
begin

text \<open>
  Cancelling a query while its rows are streamed. A simple query of one statement that was forwarded to
  Trino leaves its query id in the cell of its connection (\<^verbatim>\<open>src/trino_stream.rs\<close>), and the client may open a
  second connection and send a cancel request (\<^verbatim>\<open>src/cancel.rs\<close>) at any moment until the stream has ended.
  Until then the system takes the steps below: whatever the accept loop and the other connections do, and
  polls of the connection's streams that deliver a row or an error. No such step touches the cell.
\<close>

section \<open>The steps while a connection streams\<close>

inductive streaming_step :: "'s deployment \<Rightarrow> nat \<Rightarrow> 's gw_system \<Rightarrow> 's gw_system \<Rightarrow> bool" for D t where
  serve: "sphase (sy_server S) = Accepting \<Longrightarrow> srv = serve_poll sd acc (sy_server S) \<Longrightarrow>
     (secure \<Longrightarrow> tls_required (dp_config D)) \<Longrightarrow>
     streaming_step D t S (S\<lparr>sy_server := srv, sy_conns := spawn_conn secure (sy_server S) srv @ sy_conns S\<rparr>)"
| joinable: "e \<in> set (exiting (sy_server S)) \<Longrightarrow>
     streaming_step D t S (S\<lparr>sy_server := task_done e (sy_server S)\<rparr>)"
| handshake: "i < length (sy_conns S) \<Longrightarrow> sy_conns S ! i = c \<Longrightarrow> tk_id c \<noteq> t \<Longrightarrow> expected_in (phase (tk_client c)) msg \<Longrightarrow>
     (\<And>tc. check_error wenv tc = None \<Longrightarrow> dp_accepts D tc) \<Longrightarrow>
     startup_handler (main_factory D) wenv (tk_client c) msg (sy_gw S) = (res, client', g') \<Longrightarrow>
     streaming_step D t S (S\<lparr>sy_gw := g', sy_conns := (sy_conns S)[i := c\<lparr>tk_client := client'\<rparr>]\<rparr>)"
| cancel: "i < length (sy_conns S) \<Longrightarrow> phase (tk_client (sy_conns S ! i)) = AwaitingStartup \<Longrightarrow>
     (cancel_handler (main_factory D) pid secret (sy_gw S) = None \<Longrightarrow> s' = sy_svc S) \<Longrightarrow>
     streaming_step D t S (S\<lparr>sy_svc := s'\<rparr>)"
| work: "i < length (sy_conns S) \<Longrightarrow> sy_conns S ! i = c \<Longrightarrow> tk_id c \<noteq> t \<Longrightarrow> phase (tk_client c) = ReadyForQuery \<Longrightarrow>
     session_step D (conn_of S c) k \<Longrightarrow>
     streaming_step D t S (S\<lparr>sy_gw := cn_gw k, sy_svc := cn_svc k,
       sy_conns := (sy_conns S)[i := c\<lparr>tk_client := cn_client k, tk_streams := cn_streams k\<rparr>]\<rparr>)"
| close: "i < length (sy_conns S) \<Longrightarrow> sy_conns S ! i = c \<Longrightarrow> tk_id c \<noteq> t \<Longrightarrow> tk_streams c = [] \<Longrightarrow>
     streaming_step D t S (S\<lparr>sy_gw := close_session (session_state (tk_client c)) (sy_gw S),
       sy_server := task_exit (tk_id c) (sy_server S), sy_conns := remove_nth i (sy_conns S)\<rparr>)"
| deliver: "i < length (sy_conns S) \<Longrightarrow> sy_conns S ! i = c \<Longrightarrow> tk_id c = t \<Longrightarrow> phase (tk_client c) = ReadyForQuery \<Longrightarrow>
     session_state (tk_client c) = Some cs \<Longrightarrow> j < length (tk_streams c) \<Longrightarrow>
     stream_next (dp_conv D) (pe_enc (dp_pipe D)) (pe_svc (dp_pipe D) (cs_trino_client cs)) (tk_streams c ! j) (sy_svc S) (sy_gw S)
       = Some (Some item, st', s', g') \<Longrightarrow>
     streaming_step D t S (S\<lparr>sy_gw := g', sy_svc := s',
       sy_conns := (sy_conns S)[i := c\<lparr>tk_streams := (tk_streams c)[j := st']\<rparr>]\<rparr>)"

section \<open>Lemmas\<close>

lemma streaming_step_system: "streaming_step D t S S' \<Longrightarrow> system_step D S S'"
proof (induction rule: streaming_step.induct)
  case (deliver i S c cs j item st' s' g')
  have "session_step D (conn_of S c) ((conn_of S c)\<lparr>cn_streams := (tk_streams c)[j := st'], cn_svc := s', cn_gw := g'\<rparr>)"
    using session_step.poll [of j "conn_of S c" cs D "Some item" st' s' g'] deliver(5-7) by (simp add: conn_of_def)
  from system_step.work [OF deliver(1,2,4) this] show ?case by (simp add: conn_of_def)
next
  case (handshake i S c msg wenv res client' g')
  show ?case by (rule system_step.handshake [OF handshake(1,2,4,5,6)])
next
  case (cancel i S pid secret s')
  show ?case by (rule system_step.cancel [OF cancel])
qed (auto intro: system_step.intros)

lemma streaming_reach: "(streaming_step D t)\<^sup>*\<^sup>* S S' \<Longrightarrow> system_reach D S \<Longrightarrow> system_reach D S'"
  by (induction rule: rtranclp_induct) (auto intro: system_reach.step streaming_step_system)

lemma stream_item_keeps:
  assumes "stream_next cv enc svc st s g = Some (Some item, st', s', g')"
  shows "g' = g"
proof (cases "rs_done st")
  case True
  with assms show ?thesis by (simp add: stream_next.simps)
next
  case False
  from stream_next_guard [OF assms False] show ?thesis by simp
qed

lemma other_conn_stays:
  assumes "c \<in> set cs" and "f c \<noteq> f (cs ! i)"
  shows "c \<in> set (cs[i := y])" and "c \<in> set (remove_nth i cs)"
proof -
  obtain j where j: "j < length cs" "cs ! j = c" using assms(1) by (auto simp: in_set_conv_nth)
  then have "j \<noteq> i" using assms(2) by auto
  with j show "c \<in> set (cs[i := y])" by (metis length_list_update nth_list_update_neq nth_mem)
  show "c \<in> set (remove_nth i cs)"
  proof (cases "i < length cs")
    case True
    with arg_cong [OF mset_remove_nth [OF True], of set_mset] assms show ?thesis by (metis insertE set_mset_add_mset_insert set_mset_mset)
  qed (use assms(1) in \<open>simp add: remove_nth_def\<close>)
qed

lemma conn_kept:
  assumes "c \<in> set cs" and "cs ! i = c1"
  shows "\<exists>c' \<in> set (cs[i := c1\<lparr>tk_streams := sts\<rparr>]). tk_id c' = tk_id c \<and> tk_client c' = tk_client c"
proof -
  obtain n where n: "n < length cs" "cs ! n = c" using assms(1) by (auto simp: in_set_conv_nth)
  then have "cs[i := c1\<lparr>tk_streams := sts\<rparr>] ! n \<in> {c, c\<lparr>tk_streams := sts\<rparr>}" using assms(2) by (cases "n = i") auto
  moreover have "cs[i := c1\<lparr>tk_streams := sts\<rparr>] ! n \<in> set (cs[i := c1\<lparr>tk_streams := sts\<rparr>])" using n(1) by simp
  ultimately show ?thesis by (auto intro: bexI [rotated])
qed

lemma other_cell:
  assumes "life_inv (abs_world S)" and "i < length (sy_conns S)" and "session_of (sy_conns S ! i) = [st']"
    and "c \<in> set (remove_nth i (sy_conns S))" and "session_of c = [st]"
  shows "cs_active_query_id st' \<noteq> cs_active_query_id st"
proof -
  let ?rest = "concat (map session_of (remove_nth i (sy_conns S)))"
  have m: "mset (sessions S) = mset (st' # ?rest)"
    using concat_remove_nth [OF assms(2), of session_of] assms(3) by (simp add: sessions_def)
  have "distinct (st' # ?rest)" using abs_live(1) [OF assms(1)] mset_eq_imp_distinct_iff [OF m] by blast
  moreover have "st \<in> set ?rest" using assms(4,5) by force
  ultimately show ?thesis
    using abs_live(2) [OF assms(1)] mset_eq_setD [OF m] by (auto simp: inj_on_def)
qed

lemma startup_slots:
  assumes "on_startup wenv cfg (client :: session_client) msg g = (res, client', g')" and "a \<noteq> next_slot g"
  shows "slots g' a = slots g a"
  using assms(1)
proof (cases rule: on_startup_cases)
  case (established c1 tc)
  with assms(2) show ?thesis
    by (auto simp: establish_session_def new_pid_and_secret_key_def register_cancel_def Let_def
        drop_connection_state_def unregister_cancel_def split: option.splits)
qed simp

text \<open>A step while connection \<open>t\<close> streams leaves its session and its cell alone.\<close>

definition streaming :: "nat \<Rightarrow> gw_response connection_state \<Rightarrow> str \<Rightarrow> 's gw_system \<Rightarrow> bool" where
  "streaming t cs qid S \<longleftrightarrow> slots (sy_gw S) (cs_active_query_id cs) = Some qid
     \<and> (\<exists>c \<in> set (sy_conns S). tk_id c = t \<and> session_state (tk_client c) = Some cs)"

lemma streaming_step_keeps:
  assumes "streaming_step D t S S'" and "system_reach D S" and "life_inv (abs_world S)" and "streaming t cs qid S"
  shows "streaming t cs qid S'"
proof -
  have ok: "conn_ok (sy_conns S ! i)" if "i < length (sy_conns S)" for i
    using system_reach_ok [OF assms(2)] that by (simp add: list_all_length)
  obtain c where c: "c \<in> set (sy_conns S)" "tk_id c = t" "session_state (tk_client c) = Some cs"
    and slot: "slots (sy_gw S) (cs_active_query_id cs) = Some qid"
    using assms(4) by (auto simp: streaming_def)
  have of: "session_of c = [base_state cs]" using c(3) by (simp add: session_of_def)
  have stays: "c \<in> set ((sy_conns S)[i := y])" "c \<in> set (remove_nth i (sy_conns S))" if "tk_id (sy_conns S ! i) \<noteq> t" for i y
    using other_conn_stays [OF c(1), of tk_id i] that c(2) by auto
  from assms(1) show ?thesis
  proof cases
    case (handshake i c1 msg wenv res client' g')
    have "base_state cs \<in> set (sessions S)" using c(1) of by (force simp: sessions_def)
    then have "cs_active_query_id cs \<noteq> next_slot (sy_gw S)" using abs_live(3) [OF assms(3)] by fastforce
    with startup_slots [of wenv "dp_config D" "tk_client c1" msg "sy_gw S" res client' g'] handshake slot stays(1) [of i] c show ?thesis
      by (auto simp: streaming_def)
  next
    case (work i c1 k)
    obtain cs1 x where w: "session_of c1 = [base_state cs1]"
        "cn_gw k = set_active_query_id (Some (cs_active_query_id cs1)) x (sy_gw S)"
      by (rule work_ok [OF work(5) _ work(6) refl]) (use ok [OF work(2)] work(3) in auto)
    have "cs_active_query_id (base_state cs1) \<noteq> cs_active_query_id (base_state cs)"
      using other_cell [OF assms(3) work(2), of "base_state cs1" c] stays(2) [of i] work(3,4) w(1) of by simp
    with w(2) work(1,3,4) slot stays(1) [of i] c show ?thesis by (auto simp: streaming_def set_active_query_id_def)
  next
    case (close i c1)
    have "slots (sy_gw S') = slots (sy_gw S)"
      using close_session_ok [of c1 _ "sy_gw S"] ok [OF close(2)] close(1,3)
      by (cases "session_state (tk_client c1)") (auto simp: close_session_def drop_connection_state_def unregister_cancel_def)
    with close(1,3,4) slot stays(2) [of i] c show ?thesis by (auto simp: streaming_def)
  next
    case (deliver i c1 cs1 j item st' s' g')
    from conn_kept [OF c(1) deliver(3)] slot c stream_item_keeps [OF deliver(8)] show ?thesis
      by (fastforce simp: streaming_def deliver(1))
  qed (use slot c in \<open>auto simp: streaming_def\<close>)
qed

lemma streaming_kept:
  assumes "(streaming_step D t)\<^sup>*\<^sup>* S S'" and "system_reach D S" and "streaming t cs qid S" and "next_slot (sy_gw S') \<le> 2 ^ 32"
  shows "streaming t cs qid S' \<and> next_slot (sy_gw S) \<le> next_slot (sy_gw S')"
  using assms
proof (induction rule: rtranclp_induct)
  case (step S1 S2)
  have r: "system_reach D S1" by (rule streaming_reach [OF step.hyps(1) step.prems(1)])
  have le: "next_slot (sy_gw S1) \<le> next_slot (sy_gw S2)"
    using system_step_ok [OF streaming_step_system [OF step.hyps(2)] system_reach_ok [OF r]] by simp
  with step have ih: "streaming t cs qid S1" "next_slot (sy_gw S) \<le> next_slot (sy_gw S1)" by auto
  have "life_inv (abs_world S1)" using system_reach_simulates [OF r] le step.prems(3) by simp
  from streaming_step_keeps [OF step.hyps(2) r this ih(1)] ih(2) le show ?case by simp
qed simp

lemma streaming_cancel:
  assumes "life_inv (abs_world S)" and "streaming t cs qid S"
  shows "on_cancel_request (fst (cs_cancel_key cs)) (snd (cs_cancel_key cs)) (sy_gw S) = Some (cs_trino_client cs, qid)"
proof -
  have "base_state cs \<in> set (live (abs_world S))"
    using assms(2) by (force simp: streaming_def abs_world_def sessions_def session_of_def)
  from on_cancel_request_live [OF assms(1) this] assms(2) show ?thesis
    by (simp add: abs_world_def streaming_def)
qed

text \<open>What a simple query of one statement leaves behind when it hands out a row stream.\<close>

lemma single_statement_stream:
  assumes "session_state client = Some cs" and "length (split_statements (pe_lib env) query) \<le> 1"
    and "simple_do_query env client query s g = Some (Inr [RowStream fs rows], s', g')"
  obtains res s1 where "svc_get (pe_svc env (cs_trino_client cs)) (trino_sql (pe_lib env) query) s = (Inr res, s1)"
    and "g' = set_active_query_id (Some (cs_active_query_id cs)) (Some (qr_id res)) g"
proof -
  have "execute_trino_query (pe_svc env (cs_trino_client cs)) (trino_sql (pe_lib env) query) (Some (cs_active_query_id cs)) None s g
      = Some (Inr (fs, rows), s', g')"
    using assms
    by (auto simp: simple_do_query_def process_query_def process_single_statement_def trino_sql_def Let_def map_ok_def
        split: option.splits bind_splits sum.splits if_splits)
  then show thesis by (rule execute_Inr_stream) (rule that)
qed

lemma other_cancels_kept:
  assumes "life_inv (abs_world S)" and "st \<in> set (sessions S)" and "st' \<in> set (sessions S)" and "st' \<noteq> st"
  shows "on_cancel_request (fst (cs_cancel_key st')) (snd (cs_cancel_key st')) (set_active_query_id (Some (cs_active_query_id st)) q (sy_gw S))
    = on_cancel_request (fst (cs_cancel_key st')) (snd (cs_cancel_key st')) (sy_gw S)"
proof -
  let ?w = "(abs_world S)\<lparr>gw := set_active_query_id (Some (cs_active_query_id st)) q (sy_gw S)\<rparr>"
  have "life_inv ?w" using assms(1) by (simp add: life_inv_def abs_world_def set_active_query_id_def)
  moreover have "cs_active_query_id st' \<noteq> cs_active_query_id st"
    using abs_live(2) [OF assms(1)] assms(2-4) by (auto dest: inj_onD)
  ultimately show ?thesis
    using on_cancel_request_live [of ?w st'] on_cancel_request_live [OF assms(1), of st'] assms(3)
    by (simp add: set_active_query_id_def abs_world_def)
qed

section \<open>Properties\<close>

text \<open>C5. A query can be cancelled for as long as its rows are streamed. In a reachable state let a connection
  send a simple query of one statement whose reply is a row stream, and let the system then take any steps
  of the accept loop and of the other connections and any polls of the connection's streams that deliver a
  row or an error, in any order. A cancel request with the connection's key then cancels exactly the query
  whose id Trino returned for the forwarded statement, on that connection's Trino client. Submitting the
  statement leaves the cancel requests for all other sessions as they were.\<close>

theorem running_query_cancellable:
  assumes "system_reach D S" and "i < length (sy_conns S)" and "sy_conns S ! i = c"
    and "phase (tk_client c) = ReadyForQuery" and "session_state (tk_client c) = Some cs"
    and "length (split_statements (pe_lib (dp_pipe D)) query) \<le> 1"
    and "simple_do_query (dp_pipe D) (tk_client c) query (sy_svc S) (sy_gw S) = Some (Inr [RowStream fs rows], s', g')"
    and "S1 = S\<lparr>sy_gw := g', sy_svc := s', sy_conns := (sy_conns S)[i := c\<lparr>tk_streams := rows # tk_streams c\<rparr>]\<rparr>"
    and "(streaming_step D (tk_id c))\<^sup>*\<^sup>* S1 S2" and "next_slot (sy_gw S2) \<le> 2 ^ 32"
  shows "\<exists>res s1. svc_get (pe_svc (dp_pipe D) (cs_trino_client cs)) (trino_sql (pe_lib (dp_pipe D)) query) (sy_svc S) = (Inr res, s1)
    \<and> system_reach D S2
    \<and> cancel_handler (main_factory D) (fst (cs_cancel_key cs)) (snd (cs_cancel_key cs)) (sy_gw S2) = Some (cs_trino_client cs, qr_id res)
    \<and> (\<forall>st \<in> set (sessions S). st \<noteq> base_state cs \<longrightarrow>
         cancel_handler (main_factory D) (fst (cs_cancel_key st)) (snd (cs_cancel_key st)) (sy_gw S1)
           = cancel_handler (main_factory D) (fst (cs_cancel_key st)) (snd (cs_cancel_key st)) (sy_gw S))"
proof -
  obtain res s1 where q: "svc_get (pe_svc (dp_pipe D) (cs_trino_client cs)) (trino_sql (pe_lib (dp_pipe D)) query) (sy_svc S) = (Inr res, s1)"
      "g' = set_active_query_id (Some (cs_active_query_id cs)) (Some (qr_id res)) (sy_gw S)"
    by (rule single_statement_stream [OF assms(5-7)])
  have "session_step D (conn_of S c) ((conn_of S c)\<lparr>cn_streams := rows # tk_streams c, cn_svc := s', cn_gw := g'\<rparr>)"
    using session_step.message [of D "SimpleQuery query" "conn_of S c" "tk_client c" "[rows]" s' g'] assms(7)
    by (simp add: conn_of_def main_factory_def new_handler_factory_def on_simple_def reply_streams_def response_streams_def)
  from system_step.work [OF assms(2-4) this] have r1: "system_reach D S1"
    using system_reach.step [OF assms(1)] by (simp add: conn_of_def assms(8))
  have "(c\<lparr>tk_streams := rows # tk_streams c\<rparr>) \<in> set (sy_conns S1)" using assms(2) by (simp add: assms(8) set_update_memI)
  with q(2) assms(5) have st: "streaming (tk_id c) cs (qr_id res) S1"
    by (auto simp: streaming_def assms(8) set_active_query_id_def intro!: bexI [of _ "c\<lparr>tk_streams := rows # tk_streams c\<rparr>"])
  note k = streaming_kept [OF assms(9) r1 st assms(10)]
  note r2 = streaming_reach [OF assms(9) r1]
  have inv2: "life_inv (abs_world S2)" using system_reach_simulates [OF r2 assms(10)] by blast
  have "next_slot (sy_gw S) \<le> 2 ^ 32" using k assms(10) by (simp add: assms(8) q(2) set_active_query_id_def)
  then have inv: "life_inv (abs_world S)" using system_reach_simulates [OF assms(1)] by blast
  have "base_state cs \<in> set (sessions S)"
    using nth_mem [OF assms(2)] assms(3,5) by (force simp: sessions_def session_of_def)
  from other_cancels_kept [OF inv this, of _ "Some (qr_id res)"] streaming_cancel [OF inv2] k r2 q show ?thesis
    by (auto simp: assms(8))
qed

theorem running_query_cancellable_witness:
  "\<forall>cv. \<exists>S S1 S2 c cs fs rows. system_reach (sample_deployment default_config cv) S \<and> sy_conns S = [c]
     \<and> session_state (tk_client c) = Some cs
     \<and> simple_do_query sample_pipe (tk_client c) ''SELECT n'' 0 (sy_gw S) = Some (Inr [RowStream fs rows], 2, sy_gw S1)
     \<and> streaming_step (sample_deployment default_config cv) (tk_id c) S1 S2
     \<and> on_cancel_request (fst (cs_cancel_key cs)) (snd (cs_cancel_key cs)) (sy_gw S2) = Some (cs_trino_client cs, ''q1'')"
proof
  fix cv
  let ?D = "sample_deployment default_config cv" and ?fs = "build_pg_schema sample_columns None" and ?r = "sample_stream None"
  obtain S c cs where S: "system_reach ?D S" "sy_conns S = [c]" "session_state (tk_client c) = Some cs"
      "cs_active_query_id cs = 0" "next_slot (sy_gw S) = 1" "sy_svc S = 0" "phase (tk_client c) = ReadyForQuery"
      "cs_config cs = default_config" "tk_streams c = []"
    using sample_session_reached [of cv] by blast
  define S1 where "S1 = S\<lparr>sy_gw := set_active_query_id (Some 0) (Some ''q1'') (sy_gw S), sy_svc := 2,
    sy_conns := (sy_conns S)[0 := c\<lparr>tk_streams := ?r # tk_streams c\<rparr>]\<rparr>"
  have q: "simple_do_query sample_pipe (tk_client c) ''SELECT n'' 0 (sy_gw S) = Some (Inr [RowStream ?fs ?r], 2, sy_gw S1)"
    using S by (simp add: simple_do_query_def sample_process S1_def numeral_2_eq_2)
  obtain item st' where n: "stream_next cv (pe_enc sample_pipe) sample_service ?r 2 (sy_gw S1) = Some (Some item, st', 2, sy_gw S1)"
    by (subst (asm) stream_next.simps) (simp add: sample_stream_def)
  define S2 where "S2 = S1\<lparr>sy_conns := [c\<lparr>tk_streams := [st']\<rparr>]\<rparr>"
  have step: "streaming_step ?D (tk_id c) S1 S2"
    using streaming_step.deliver [of 0 S1 "c\<lparr>tk_streams := [?r]\<rparr>" "tk_id c" cs 0 ?D item st' 2 "sy_gw S1"] n S
    by (simp add: S1_def S2_def sample_deployment_def sample_pipe_def)
  have "length (split_statements (pe_lib (dp_pipe ?D)) ''SELECT n'') \<le> 1"
    by (simp add: split_statements_def sample_pipe_def sample_lib_def sample_deployment_def)
  from running_query_cancellable [OF S(1) _ _ S(7,3) this, of 0 ?fs ?r 2 "sy_gw S1" S1 S2] step q S
  have "on_cancel_request (fst (cs_cancel_key cs)) (snd (cs_cancel_key cs)) (sy_gw S2) = Some (cs_trino_client cs, ''q1'')"
    by (auto simp: S1_def S2_def sample_deployment_def sample_pipe_def sample_service_def set_active_query_id_def)
  with S q step show "\<exists>S S1 S2 c cs fs rows. system_reach ?D S \<and> sy_conns S = [c]
     \<and> session_state (tk_client c) = Some cs
     \<and> simple_do_query sample_pipe (tk_client c) ''SELECT n'' 0 (sy_gw S) = Some (Inr [RowStream fs rows], 2, sy_gw S1)
     \<and> streaming_step ?D (tk_id c) S1 S2
     \<and> on_cancel_request (fst (cs_cancel_key cs)) (snd (cs_cancel_key cs)) (sy_gw S2) = Some (cs_trino_client cs, ''q1'')"
    by (intro exI [of _ S] exI [of _ S1] exI [of _ S2] exI [of _ c] exI [of _ cs] exI [of _ ?fs] exI [of _ ?r]) simp
qed

end
