(* ===== verification/Build_Info.thy ===== *)
theory Build_Info
  imports Types_Map
begin

text \<open>
  Model of \<^verbatim>\<open>build.rs\<close> and of the version \<^verbatim>\<open>src/main.rs\<close> logs: the build script puts a time stamp and the git
  commit into the environment of the compiler. The formatted time and the outcome of running
  \<^verbatim>\<open>git rev-parse --short HEAD\<close> are parameters.
\<close>

section \<open>The build script\<close>

text \<open>The outcome of a command that could be started: whether it succeeded, and its output.\<close>

record command_output =
  exit_success :: bool
  stdout :: str

definition build_git_hash :: "str + command_output \<Rightarrow> str" where
  "build_git_hash out =
     (case out of
        Inl _ \<Rightarrow> ''unknown''
      | Inr o1 \<Rightarrow> if utf8 (stdout o1) then trim (stdout o1) else ''unknown'')"

definition build_main :: "str \<Rightarrow> str + command_output \<Rightarrow> str list" where
  "build_main timestamp out =
     [''cargo:rustc-env=BUILD_TIMESTAMP='' @ timestamp, ''cargo:rustc-env=BUILD_GIT_HASH='' @ build_git_hash out]"

text \<open>\<open>concat!(env!("CARGO_PKG_VERSION"), "-", env!("BUILD_GIT_HASH"))\<close>\<close>

definition logged_version :: "str \<Rightarrow> str + command_output \<Rightarrow> str" where
  "logged_version pkg_version out = pkg_version @ ''-'' @ build_git_hash out"

section \<open>Lemmas\<close>

text \<open>A commit is printed on a line of its own; the script keeps exactly the commit, without the line end.\<close>

lemma build_git_hash_commit:
  assumes "is_ascii h" and "list_all (\<lambda>c. \<not> ws_ascii c) h" and "h \<noteq> []"
  shows "build_git_hash (Inr \<lparr>exit_success = True, stdout = h @ [CHR 0x0A]\<rparr>) = h"
proof -
  have a: "is_ascii (h @ [CHR 0x0A])" using assms(1) by (simp add: is_ascii_def)
  have "dropWhile ws_ascii (h @ [CHR 0x0A]) = h @ [CHR 0x0A]" using assms(2,3) by (cases h) simp_all
  moreover have "rstrip (h @ [CHR 0x0A]) = h"
  proof -
    have "ws_ascii (CHR 0x0A)" by (simp add: ws_ascii_def)
    then have "rstrip (h @ [CHR 0x0A]) = rstrip h" by (simp add: rstrip_def)
    also have "\<dots> = h" using assms(2,3) by (intro rstrip_id) (auto simp: list_all_iff)
    finally show ?thesis .
  qed
  ultimately have "trim (h @ [CHR 0x0A]) = h" by (simp add: trim_ascii [OF a])
  moreover have "utf8 (h @ [CHR 0x0A])" using a by (rule utf8_ascii)
  ultimately show ?thesis by (simp add: build_git_hash_def)
qed

text \<open>
  The fallback is for a git that cannot be started: one that fails (outside a work tree) has an empty output,
  and the version ends in a dash.
\<close>

lemma build_git_hash_fallback:
  "build_git_hash (Inl e) = ''unknown''"
  "logged_version v (Inr \<lparr>exit_success = False, stdout = []\<rparr>) = v @ ''-''"
  by (simp_all add: build_git_hash_def logged_version_def) code_simp+

end
