(* ===== verification/Float_Roundtrip.thy ===== *)
theory Float_Roundtrip
  imports Types_Encode Complex_Main
begin

text \<open>
  Doubles survive their text form: the printer's shortest digits are read back, by the standard library's
  parser, as exactly the same double. The rounding of a ratio is characterised by its real value, so that
  all decimals within a quarter of a unit in the last place round to the same double; eighteen digits are
  always that close, which ends the printer's search.
\<close>

section \<open>Rounding over the reals\<close>

definition rnd :: "real \<Rightarrow> nat" where
  "rnd y = (if 1 / 2 < frac y \<or> frac y = 1 / 2 \<and> odd (nat \<lfloor>y\<rfloor>) then Suc (nat \<lfloor>y\<rfloor>) else nat \<lfloor>y\<rfloor>)"

lemma round_even_rnd:
  assumes "0 < d"
  shows "round_even n d = rnd (real n / real d)"
proof -
  have fl: "\<lfloor>real n / real d\<rfloor> = int (n div d)" by (simp add: floor_divide_of_nat_eq)
  have "real n = real (n div d) * real d + real (n mod d)"
    by (metis div_mult_mod_eq of_nat_add of_nat_mult)
  then have "real n / real d - real (n div d) = real (n mod d) / real d"
    using assms by (simp add: field_simps)
  then have fr: "frac (real n / real d) = real (n mod d) / real d" by (simp only: frac_def fl of_int_of_nat_eq)
  have "(1 / 2 < frac (real n / real d)) = (d < 2 * (n mod d))"
  proof -
    have "(1 / 2 < real (n mod d) / real d) = (real d < real (2 * (n mod d)))" using assms by (simp add: field_simps)
    then show ?thesis by (simp only: fr of_nat_less_iff)
  qed
  moreover have "(frac (real n / real d) = 1 / 2) = (2 * (n mod d) = d)"
  proof -
    have "(real (n mod d) / real d = 1 / 2) = (real (2 * (n mod d)) = real d)" using assms by (auto simp: field_simps)
    then show ?thesis by (simp only: fr of_nat_eq_iff)
  qed
  ultimately show ?thesis by (simp add: rnd_def round_even_def Let_def fl)
qed

lemma rnd_near:
  assumes "\<bar>y - real m\<bar> < 1 / 2" and "0 \<le> y"
  shows "rnd y = m"
proof (cases "real m \<le> y")
  case True
  then have fl: "\<lfloor>y\<rfloor> = int m" using assms by (simp add: floor_eq_iff)
  moreover have "frac y < 1 / 2" using True assms by (simp add: frac_def fl)
  ultimately show ?thesis by (simp add: rnd_def)
next
  case False
  then have m: "0 < m" using assms(2) by (cases m) auto
  have fl: "\<lfloor>y\<rfloor> = int m - 1" using False assms by (simp add: floor_eq_iff)
  have "1 / 2 < frac y" using False assms by (simp add: frac_def fl)
  then show ?thesis using m by (simp add: rnd_def fl nat_diff_distrib)
qed

section \<open>The exponent of a ratio\<close>

definition two :: "int \<Rightarrow> real" where
  "two e = 2 powi e"

lemma two_pos [simp]: "0 < two e" "two e \<noteq> 0" "0 \<le> two e"
  by (simp_all add: two_def)

lemma two_add: "two (x + y) = two x * two y"
  by (simp add: two_def power_int_add)

lemma two_diff: "two (x - y) = two x / two y"
  by (simp add: two_def power_int_diff)

lemma two_nat: "two (int n) = 2 ^ n"
  by (simp add: two_def)

lemma two_less_iff: "two x < two y \<longleftrightarrow> x < y"
proof -
  have "two x < two y" if "x < y" for x y using that unfolding two_def by (intro power_int_strict_increasing) simp_all
  then show ?thesis by (metis less_irrefl less_linear less_trans)
qed

lemma bit_len_bounds: "0 < n \<Longrightarrow> 2 ^ (bit_len n - 1) \<le> n \<and> n < 2 ^ bit_len n \<and> 0 < bit_len n"
proof (induction n rule: bit_len.induct)
  case (1 n)
  show ?case
  proof (cases "n = 1")
    case True
    then show ?thesis by (simp add: bit_len.simps [of "Suc 0"] bit_len.simps [of 0])
  next
    case False
    then have "0 < n div 2" using 1(2) by simp
    with 1 have ih: "2 ^ (bit_len (n div 2) - 1) \<le> n div 2" "n div 2 < 2 ^ bit_len (n div 2)" "0 < bit_len (n div 2)"
      by auto
    have b: "bit_len n = Suc (bit_len (n div 2))" using 1(2) by (simp add: bit_len.simps [of n])
    have "(2 :: nat) ^ bit_len (n div 2) = 2 * 2 ^ (bit_len (n div 2) - 1)" using ih(3) by (cases "bit_len (n div 2)") simp_all
    with ih(1) have "2 ^ bit_len (n div 2) \<le> 2 * (n div 2)" by simp
    also have "\<dots> \<le> n" by simp
    finally have "2 ^ bit_len (n div 2) \<le> n" .
    moreover have "n < 2 ^ bit_len n" using ih(2) b by (simp add: div_less_iff_less_mult mult.commute)
    ultimately show ?thesis using b by simp
  qed
qed

lemma bit_len_powi:
  assumes "0 < n"
  shows "two (int (bit_len n) - 1) \<le> real n" and "real n < two (int (bit_len n))"
proof -
  note B = bit_len_bounds [OF assms]
  have "0 < bit_len n" using B by blast
  then have "int (bit_len n) - 1 = int (bit_len n - 1)" by simp
  then have "two (int (bit_len n) - 1) = two (int (bit_len n - 1))" by (rule arg_cong)
  also have "\<dots> = real (2 ^ (bit_len n - 1))" by (simp add: two_nat)
  also have "\<dots> \<le> real n" by (rule of_nat_mono) (use B in blast)
  finally show "two (int (bit_len n) - 1) \<le> real n" .
  have "real n < real (2 ^ bit_len n)" by (rule of_nat_less_iff [THEN iffD2]) (use B in blast)
  also have "\<dots> = two (int (bit_len n))" by (simp add: two_nat)
  finally show "real n < two (int (bit_len n))" .
qed

lemma scaled_ratio:
  assumes "0 < b"
  shows "0 < snd (scaled a b e)" and "real (fst (scaled a b e)) / real (snd (scaled a b e)) = (real a / real b) / two e"
  using assms by (simp_all add: scaled_def two_def power_int_def field_simps)

lemma ratio_bounds:
  assumes "0 < a" and "0 < b"
  shows "two (int (bit_len a) - int (bit_len b) - 1) < real a / real b"
    and "real a / real b < two (int (bit_len a) - int (bit_len b) + 1)"
proof -
  note a = bit_len_powi [OF assms(1)] and b = bit_len_powi [OF assms(2)]
  have "two (int (bit_len a) - int (bit_len b) - 1) = two (int (bit_len a) - 1) / two (int (bit_len b))"
    by (simp add: two_diff)
  also have "\<dots> < real a / real b"
    using a(1) b(2) assms by (intro frac_less2) simp_all
  finally show "two (int (bit_len a) - int (bit_len b) - 1) < real a / real b" .
  have "real a / real b < two (int (bit_len a)) / two (int (bit_len b) - 1)"
    using a(2) b(1) assms by (intro frac_less) simp_all
  also have "\<dots> = two (int (bit_len a) - int (bit_len b) + 1)"
    by (simp add: two_diff two_add)
  finally show "real a / real b < two (int (bit_len a) - int (bit_len b) + 1)" .
qed

text \<open>The exponent that puts a ratio between \<open>2^(p-1)\<close> and \<open>2^p\<close>, and its uniqueness.\<close>

definition fits_in :: "nat \<Rightarrow> real \<Rightarrow> int \<Rightarrow> bool" where
  "fits_in p q e \<longleftrightarrow> two (int p - 1) \<le> q / two e \<and> q / two e < two (int p)"

lemma fits_in_iff: "fits_in p q e \<longleftrightarrow> two (int p - 1 + e) \<le> q \<and> q < two (int p + e)"
  by (simp add: fits_in_def le_divide_eq divide_less_eq two_add)

lemma fits_in_unique:
  assumes "fits_in p q e" and "fits_in p q e'"
  shows "e = e'"
proof -
  have "two (int p - 1 + e) < two (int p + e')" "two (int p - 1 + e') < two (int p + e)"
    using assms unfolding fits_in_iff by linarith+
  then have "int p - 1 + e < int p + e'" "int p - 1 + e' < int p + e" by (simp_all add: two_less_iff)
  then show ?thesis by simp
qed

lemma ratio_fits:
  fixes p :: nat
  assumes "0 < a" and "0 < b"
  defines "e1 \<equiv> int (bit_len a) - int (bit_len b) - int p"
  shows "fits_in p (real a / real b) (if 2 ^ p \<le> fst (scaled a b e1) div snd (scaled a b e1) then e1 + 1 else e1)"
proof -
  let ?q = "real a / real b" and ?s = "scaled a b e1"
  have lo: "two (int p - 1 + e1) \<le> ?q" and hi: "?q < two (int p + (e1 + 1))"
    using ratio_bounds [OF assms(1,2)] by (simp_all add: e1_def algebra_simps)
  have "(2 ^ p \<le> fst ?s div snd ?s) = (2 ^ p * snd ?s \<le> fst ?s)"
    using scaled_ratio(1) [OF assms(2)] by (simp add: less_eq_div_iff_mult_less_eq)
  also have "\<dots> = (2 ^ p \<le> real (fst ?s) / real (snd ?s))"
    using scaled_ratio(1) [OF assms(2), of a e1]
    by (simp add: le_divide_eq flip: of_nat_mult) (metis of_nat_le_iff of_nat_mult of_nat_numeral of_nat_power)
  also have "\<dots> = (two (int p + e1) \<le> ?q)"
    by (simp only: scaled_ratio(2) [OF assms(2)] le_divide_eq two_add two_nat two_pos if_True)
  finally show ?thesis using lo hi by (auto simp: fits_in_iff algebra_simps)
qed

definition pack :: "nat \<Rightarrow> int \<Rightarrow> bool \<Rightarrow> nat \<Rightarrow> int \<Rightarrow> f64" where
  "pack p emax n m e =
     (let (m', e') = (if m = 2 ^ p then (2 ^ (p - 1), e + 1) else (m, e))
      in if m' = 0 then Fin n 0 0 else if emax < e' then Inf n else Fin n m' e')"

lemma float_of_ratio_real:
  assumes "0 < a" and "0 < b" and "fits_in p (real a / real b) e0"
  shows "float_of_ratio p emin emax n a b = pack p emax n (rnd ((real a / real b) / two (max emin e0))) (max emin e0)"
proof -
  let ?e1 = "int (bit_len a) - int (bit_len b) - int p"
  have e: "(if 2 ^ p \<le> fst (scaled a b ?e1) div snd (scaled a b ?e1) then ?e1 + 1 else ?e1) = e0"
    using fits_in_unique [OF ratio_fits [OF assms(1,2), of p] assms(3)] by simp
  have r: "round_even (fst (scaled a b e)) (snd (scaled a b e)) = rnd ((real a / real b) / two e)" for e
    using scaled_ratio [OF assms(2), of a e] by (simp add: round_even_rnd)
  show ?thesis
    using assms(1) by (simp add: float_of_ratio_def Let_def case_prod_beta e r pack_def)
qed

lemma float_of_ratio_cong:
  assumes "0 < a" and "0 < b" and "0 < a'" and "0 < b'" and "real a / real b = real a' / real b'"
  shows "float_of_ratio p emin emax n a b = float_of_ratio p emin emax n a' b'"
proof -
  obtain e0 where e: "fits_in p (real a / real b) e0" using ratio_fits [OF assms(1,2)] by blast
  from float_of_ratio_real [OF assms(1,2) e] float_of_ratio_real [OF assms(3,4) e [unfolded assms(5)]] assms(5)
  show ?thesis by simp
qed

section \<open>Decimals near a double\<close>

definition f64_canon :: "nat \<Rightarrow> int \<Rightarrow> bool" where
  "f64_canon m e \<longleftrightarrow> (2 ^ 52 \<le> m \<and> m < 2 ^ 53 \<and> - 1074 \<le> e \<and> e \<le> 971) \<or> (0 < m \<and> m < 2 ^ 52 \<and> e = - 1074)"

text \<open>A value just below a power of two lies in the binade below and rounds up to the power.\<close>

lemma next_binade:
  assumes y: "\<bar>q / two e - real m\<bar> < 1 / 4" and q0: "0 \<le> q" and "fits_in 53 q e0" and "e0 < e" and m52: "2 ^ 52 \<le> m"
  shows "m = 2 ^ 52 \<and> e0 = e - 1 \<and> rnd (q / two (e - 1)) = 2 ^ 53"
proof -
  have hi: "q < two (53 + e0)" using assms(3) by (simp add: fits_in_iff)
  also have "\<dots> \<le> two (52 + e)" using assms(4) two_less_iff [of "52 + e" "53 + e0"] by linarith
  finally have "q / two e < 2 ^ 52" using two_nat [of 52] by (simp add: two_add divide_less_eq)
  with y have "real m < 2 ^ 52 + 1" by linarith
  then have "real m < real (2 ^ 52 + 1)" by simp
  then have "m < 2 ^ 52 + 1" by (rule of_nat_less_iff [THEN iffD1])
  with m52 have mv: "m = 2 ^ 52" by simp
  have y': "\<bar>q / two e - 2 ^ 52\<bar> < 1 / 4" using y by (simp add: mv)
  have "(2 :: real) ^ 51 \<le> 2 ^ 52 - 1" by simp
  with y' have "2 ^ 51 \<le> q / two e" by linarith
  then have "two (51 + e) \<le> q" using two_nat [of 51] by (simp add: two_add le_divide_eq)
  with hi have "two (51 + e) < two (53 + e0)" by linarith
  then have "e0 = e - 1" using assms(4) by (simp add: two_less_iff)
  moreover have dbl: "q / two (e - 1) = 2 * (q / two e)" using two_nat [of 1] by (simp add: two_diff)
  have "real (2 ^ 53) = 2 * 2 ^ 52" by simp
  then have "\<bar>2 * (q / two e) - real (2 ^ 53)\<bar> < 1 / 2" using y' by linarith
  then have "rnd (q / two (e - 1)) = 2 ^ 53" unfolding dbl by (rule rnd_near) (use q0 in simp)
  ultimately show ?thesis using mv by simp
qed

lemma f64_of_near_ratio:
  assumes "f64_canon m e" and "0 < a" and "0 < b" and "4 * \<bar>real a / real b - real m * two e\<bar> < two e"
  shows "f64_of_ratio n a b = Fin n m e"
proof -
  obtain q where q: "q = real a / real b" by simp
  then have q0: "0 \<le> q" by simp
  have near: "4 * \<bar>q - real m * two e\<bar> < two e" using assms(4) by (simp only: q)
  have "q / two e - real m = (q - real m * two e) / two e" by (simp add: diff_divide_distrib)
  then have y: "\<bar>q / two e - real m\<bar> < 1 / 4"
    using near by (simp add: pos_divide_less_eq)
  obtain e0 where e0: "fits_in 53 q e0" unfolding q using ratio_fits [OF assms(2,3)] by blast
  then have lo: "two (52 + e0) \<le> q" by (simp add: fits_in_iff)
  have R: "f64_of_ratio n a b = pack 53 971 n (rnd (q / two (max (- 1074) e0))) (max (- 1074) e0)"
    unfolding f64_of_ratio_def q by (rule float_of_ratio_real [OF assms(2,3) e0 [unfolded q]])
  have m: "0 < m" "m \<le> 2 ^ 53 - 1" "- 1074 \<le> e" "e \<le> 971" using assms(1) by (auto simp: f64_canon_def)
  have "real m \<le> 2 ^ 53 - 1" using of_nat_mono [OF m(2), where 'a = real] by simp
  with y have "q / two e < 2 ^ 53" by linarith
  then have "q < two (53 + e)" using two_nat [of 53] by (simp add: two_add divide_less_eq)
  with lo have "two (52 + e0) < two (53 + e)" by linarith
  then have le: "e0 \<le> e" by (simp add: two_less_iff)
  show ?thesis
  proof (cases "max (- 1074) e0 = e")
    case True
    have "rnd (q / two e) = m" by (rule rnd_near) (use y q0 in simp_all)
    then show ?thesis using R True m by (simp add: pack_def)
  next
    case False
    then have e: "- 1074 < e" "e0 < e" and m52: "2 ^ 52 \<le> m" using le assms(1) by (auto simp: f64_canon_def)
    from next_binade [OF y q0 e0 e(2) m52] R e m show ?thesis by (simp add: pack_def)
  qed
qed

section \<open>The printer's search ends on a decimal that reads back\<close>

definition ten :: "int \<Rightarrow> real" where
  "ten k = 10 powi k"

lemma ten_pos [simp]: "0 < ten k" "ten k \<noteq> 0" "0 \<le> ten k"
  by (simp_all add: ten_def)

lemma ten_add: "ten (x + y) = ten x * ten y"
  by (simp add: ten_def power_int_add)

lemma ten_nat: "ten (int n) = 10 ^ n"
  by (simp add: ten_def)

lemma dec_ratio_real:
  "0 < snd (dec_ratio d x)" "real (fst (dec_ratio d x)) / real (snd (dec_ratio d x)) = real d * ten x"
  by (simp_all add: dec_ratio_def ten_def power_int_def field_simps)

lemma dec_ratio_pos: "0 < d \<Longrightarrow> 0 < fst (dec_ratio d x)"
  by (simp add: dec_ratio_def)

lemma reads_back_cong:
  assumes "0 < d" and "0 < d'" and "real d * ten x = real d' * ten x'"
  shows "reads_back f d x \<longleftrightarrow> reads_back f d' x'"
proof -
  have "f64_of_ratio (neg f) (fst (dec_ratio d x)) (snd (dec_ratio d x)) =
        f64_of_ratio (neg f) (fst (dec_ratio d' x')) (snd (dec_ratio d' x'))"
    unfolding f64_of_ratio_def
    by (rule float_of_ratio_cong)
       (use assms in \<open>simp_all only: dec_ratio_real dec_ratio_pos\<close>)
  then show ?thesis by (simp add: reads_back_def case_prod_beta)
qed

lemma reads_back_top: "reads_back f (10 ^ n) (k - int n) \<longleftrightarrow> reads_back f (Suc 0) k"
  using ten_add [of "int n" "k - int n"] by (intro reads_back_cong) (simp_all add: ten_nat)

definition digits_lo :: "nat \<Rightarrow> nat \<Rightarrow> int \<Rightarrow> nat" where
  "digits_lo a b x = (if 0 \<le> x then a div (b * 10 ^ nat x) else (a * 10 ^ nat (- x)) div b)"

lemma digits_lo_floor:
  assumes "0 < b"
  shows "real (digits_lo a b x) * ten x \<le> real a / real b" and "real a / real b < (real (digits_lo a b x) + 1) * ten x"
proof -
  have "real (digits_lo a b x) = of_int \<lfloor>(real a / real b) / ten x\<rfloor>"
  proof (cases "0 \<le> x")
    case True
    then have "(real a / real b) / ten x = real a / real (b * 10 ^ nat x)" by (simp add: ten_def power_int_def)
    then show ?thesis using True by (simp only: digits_lo_def floor_divide_of_nat_eq of_int_of_nat_eq if_True)
  next
    case False
    then have "(real a / real b) / ten x = real (a * 10 ^ nat (- x)) / real b"
      by (simp add: ten_def power_int_def field_simps)
    then show ?thesis using False by (simp only: digits_lo_def floor_divide_of_nat_eq of_int_of_nat_eq if_False)
  qed
  then have "real (digits_lo a b x) \<le> (real a / real b) / ten x" "(real a / real b) / ten x < real (digits_lo a b x) + 1"
    by linarith+
  then show "real (digits_lo a b x) * ten x \<le> real a / real b" "real a / real b < (real (digits_lo a b x) + 1) * ten x"
    by (simp_all only: pos_le_divide_eq pos_divide_less_eq ten_pos)
qed

lemma shortest_digits_cases:
  fixes k :: int and n :: nat
  defines "x \<equiv> k - int n"
  obtains (lo) "shortest_digits fuel n f a b k = (digits_lo a b x, x)" and "reads_back f (digits_lo a b x) x"
  | (hi) "shortest_digits fuel n f a b k = (Suc (digits_lo a b x), x)" and "reads_back f (Suc (digits_lo a b x)) x"
  | (top) "shortest_digits fuel n f a b k = (1, k)" and "reads_back f (10 ^ n) x"
  | (none) "shortest_digits fuel n f a b k =
             (case fuel of 0 \<Rightarrow> (digits_lo a b x, x) | Suc fuel' \<Rightarrow> shortest_digits fuel' (Suc n) f a b k)"
      and "\<not> reads_back f (digits_lo a b x) x"
proof -
  let ?ab = "if 0 \<le> x then (a, b * 10 ^ nat x) else (a * 10 ^ nat (- x), b)" and ?lo = "digits_lo a b x"
  have ab: "?lo = fst ?ab div snd ?ab" by (simp add: digits_lo_def)
  obtain C where C: "C = (2 * (fst ?ab mod snd ?ab) < snd ?ab \<or> (2 * (fst ?ab mod snd ?ab) = snd ?ab \<and> even ?lo))" by blast
  have S: "shortest_digits fuel n f a b k =
     (if reads_back f ?lo x \<and> (\<not> reads_back f (Suc ?lo) x \<or> C) then (?lo, x)
      else if reads_back f (Suc ?lo) x then (if Suc ?lo = 10 ^ n then (1, k) else (Suc ?lo, x))
      else case fuel of 0 \<Rightarrow> (?lo, x) | Suc fuel' \<Rightarrow> shortest_digits fuel' (Suc n) f a b k)"
    by (subst shortest_digits.simps) (simp only: C ab [unfolded x_def] Let_def case_prod_beta x_def)
  consider "reads_back f ?lo x" "\<not> reads_back f (Suc ?lo) x \<or> C"
    | "reads_back f (Suc ?lo) x" "\<not> (reads_back f ?lo x \<and> C)" "Suc ?lo = 10 ^ n"
    | "reads_back f (Suc ?lo) x" "\<not> (reads_back f ?lo x \<and> C)" "Suc ?lo \<noteq> 10 ^ n"
    | "\<not> reads_back f ?lo x" "\<not> reads_back f (Suc ?lo) x"
    by blast
  then show thesis
  proof cases
    case 1
    then show ?thesis by (intro lo) (simp_all add: S)
  next
    case 2
    then have "reads_back f (10 ^ n) x" by simp
    with 2 show ?thesis by (intro top) (auto simp: S)
  next
    case 3
    then show ?thesis by (intro hi) (simp_all add: S)
  next
    case 4
    then show ?thesis by (intro none) (simp_all add: S)
  qed
qed

lemma shortest_digits_reads_back:
  assumes "reads_back f (digits_lo a b (k - int (n + fuel))) (k - int (n + fuel))"
  shows "case shortest_digits fuel n f a b k of (d, x) \<Rightarrow> reads_back f d x"
  using assms
proof (induction fuel arbitrary: n)
  case 0
  then show ?case
    by (cases rule: shortest_digits_cases [of 0 n f a b k]) (auto simp: reads_back_top)
next
  case (Suc fuel)
  from Suc.IH [of "Suc n"] Suc.prems show ?case
    by (cases rule: shortest_digits_cases [of "Suc fuel" n f a b k]) (auto simp: reads_back_top)
qed

lemma nat_to_str_length_lower: "0 < n \<Longrightarrow> 10 ^ length (nat_to_str n) \<le> 10 * n"
proof (induction n rule: nat_to_str.induct)
  case (1 n)
  show ?case
  proof (cases "n < 10")
    case True
    then show ?thesis using 1(2) by (simp add: nat_to_str.simps [of n])
  next
    case False
    with 1 have "10 ^ length (nat_to_str (n div 10)) \<le> 10 * (n div 10)" by simp
    also have "\<dots> \<le> n" by simp
    finally show ?thesis using False by (simp add: nat_to_str.simps [of n])
  qed
qed

lemma leading_zeros_bound: "0 < fuel \<Longrightarrow> b \<le> a * 10 ^ fuel \<Longrightarrow> b \<le> a * 10 ^ Suc (leading_zeros fuel a b)"
proof (induction fuel arbitrary: a)
  case (Suc fuel)
  then show ?case using Suc.IH [of "a * 10"] by (cases "fuel = 0") (simp_all add: mult.assoc)
qed simp

lemma dec_exp_bound:
  assumes "0 < a" and "0 < b" and "b \<le> a * 10 ^ 400"
  shows "ten (dec_exp a b - 1) \<le> real a / real b"
proof (cases "b \<le> a")
  case True
  then have pos: "0 < a div b" using assms by (simp add: div_greater_zero_iff)
  have "ten (dec_exp a b) = real (10 ^ length (nat_to_str (a div b)))" using True by (simp add: dec_exp_def ten_nat)
  also have "\<dots> \<le> real (10 * (a div b))" by (rule of_nat_mono [OF nat_to_str_length_lower [OF pos]])
  also have "\<dots> = 10 * real (a div b)" by simp
  also have "\<dots> \<le> 10 * (real a / real b)" using of_nat_div_le_of_nat [of a b, where 'a = real] by linarith
  finally show ?thesis using ten_add [of 1 "dec_exp a b - 1"] ten_nat [of 1] by simp
next
  case False
  define z where "z = leading_zeros 400 a b"
  have "b \<le> a * 10 ^ Suc z" unfolding z_def by (rule leading_zeros_bound) (use assms(3) in simp_all)
  then have "real b \<le> real (a * 10 ^ Suc z)" by (rule of_nat_mono)
  also have "\<dots> = real a * ten (int z + 1)" using ten_nat [of "Suc z"] by (simp add: add.commute)
  finally have "real b / ten (int z + 1) \<le> real a" by (simp add: pos_divide_le_eq)
  then have "1 / ten (int z + 1) \<le> real a / real b" using assms(2) by (simp add: field_simps)
  moreover have "ten (dec_exp a b - 1) = 1 / ten (int z + 1)"
    using False ten_add [of "- int z - 1" "int z + 1"] ten_nat [of 0] by (simp add: dec_exp_def z_def eq_divide_eq)
  ultimately show ?thesis by simp
qed

section \<open>Parsing what was printed\<close>

lemma digits_val_append_zeros: "digits_val (s @ replicate k (CHR ''0'')) = digits_val s * 10 ^ k"
  by (induction k) (simp_all add: replicate_append_same [symmetric] digits_val_snoc digit_val_def flip: append_assoc)

lemma takeWhile_digits: "list_all is_digit s \<Longrightarrow> takeWhile is_digit s = s" "list_all is_digit s \<Longrightarrow> dropWhile is_digit s = []"
  by (induction s) simp_all

lemma parse_decimal_point:
  assumes "list_all is_digit ip" and "list_all is_digit fp" and "ip \<noteq> []" and "fp \<noteq> []"
  shows "parse_decimal n (ip @ ''.'' @ fp) = Some (f64_of_ratio n (digits_val (ip @ fp)) (10 ^ length fp))"
proof -
  have "\<not> is_digit (CHR ''.'')" by (simp add: is_digit_def)
  then have "takeWhile is_digit (ip @ ''.'' @ fp) = ip" "dropWhile is_digit (ip @ ''.'' @ fp) = ''.'' @ fp"
    using assms(1) by (simp_all add: takeWhile_append dropWhile_append list_all_iff)
  then show ?thesis
    using assms(3,4) by (simp add: parse_decimal_def Let_def parse_exponent_def takeWhile_digits [OF assms(2)])
qed

lemma parse_decimal_digits:
  assumes "list_all is_digit ip" and "ip \<noteq> []"
  shows "parse_decimal n ip = Some (f64_of_ratio n (digits_val ip) 1)"
  using assms(2) by (simp add: parse_decimal_def Let_def parse_exponent_def takeWhile_digits [OF assms(1)])

lemma parse_decimal_place_point:
  "parse_decimal n (place_point (nat_to_str d) x) = Some (f64_of_ratio n (fst (dec_ratio d x)) (snd (dec_ratio d x)))"
proof -
  note D = nat_to_str_digits [of d]
  have zeros: "list_all is_digit (replicate k (CHR ''0''))" for k by (simp add: list_all_iff is_digit_def)
  consider "0 \<le> x" | "x < 0" "nat (- x) < length (nat_to_str d)" | "x < 0" "length (nat_to_str d) \<le> nat (- x)" by linarith
  then show ?thesis
  proof cases
    case 1
    then show ?thesis
      using parse_decimal_digits [of "nat_to_str d @ replicate (nat x) (CHR ''0'')" n] D zeros
      by (simp add: place_point_def dec_ratio_def digits_val_append_zeros digits_val_nat_to_str)
  next
    case 2
    let ?k = "length (nat_to_str d) - nat (- x)"
    have "list_all is_digit (take ?k (nat_to_str d))" "list_all is_digit (drop ?k (nat_to_str d))"
      using D by (auto simp: list_all_iff dest: in_set_takeD in_set_dropD)
    from parse_decimal_point [OF this, of n] 2 show ?thesis
      by (simp add: place_point_def dec_ratio_def digits_val_nat_to_str)
  next
    case 3
    let ?fp = "replicate (nat (- x) - length (nat_to_str d)) (CHR ''0'') @ nat_to_str d"
    have "digits_val (''0'' @ ?fp) = d"
      using digits_val_zeros [of "Suc (nat (- x) - length (nat_to_str d))" "nat_to_str d"] by (simp add: digits_val_nat_to_str)
    with parse_decimal_point [of "''0''" ?fp n] 3 D zeros show ?thesis
      by (simp add: place_point_def dec_ratio_def is_digit_def)
  qed
qed

lemma place_point_head: "\<exists>c t. place_point (nat_to_str d) x = c # t \<and> is_digit c"
proof -
  obtain c t where c: "nat_to_str d = c # t" by (cases "nat_to_str d") auto
  then have "is_digit c" by (rule nat_to_str_head)
  with c show ?thesis by (auto simp: place_point_def is_digit_def take_Cons split: nat.splits)
qed

section \<open>The round trip\<close>

text \<open>Every finite double is zero, a normal number or a subnormal one.\<close>

fun f64_wf :: "f64 \<Rightarrow> bool" where
  "f64_wf (Fin n m e) \<longleftrightarrow> m = 0 \<and> e = 0 \<or> f64_canon m e"
| "f64_wf _ \<longleftrightarrow> True"

lemma shortest_digits_of_double:
  fixes a b :: nat
  assumes "f64_canon m e" and "0 < a" and "0 < b" and "b \<le> a * 10 ^ 400" and "real a / real b = real m * two e"
  shows "case shortest_digits 17 1 (Fin n m e) a b (dec_exp a b) of (d, x) \<Rightarrow> reads_back (Fin n m e) d x"
proof (rule shortest_digits_reads_back)
  let ?x = "dec_exp a b - int (1 + 17)" and ?v = "real m * two e"
  let ?lo = "digits_lo a b ?x"
  have "ten (dec_exp a b - 1) \<le> ?v" using dec_exp_bound [OF assms(2-4)] assms(5) by simp
  moreover have "ten (dec_exp a b - 1) = 10 ^ 17 * ten ?x" using ten_add [of 17 ?x] ten_nat [of 17] by simp
  ultimately have x: "10 ^ 17 * ten ?x \<le> ?v" by simp
  have lo: "real ?lo * ten ?x \<le> ?v" "?v < (real ?lo + 1) * ten ?x"
    using digits_lo_floor [OF assms(3), of a ?x] assms(5) by simp_all
  have "m < 2 ^ 53" using assms(1) by (auto simp: f64_canon_def)
  then have "real m < real (2 ^ 53)" by (rule of_nat_less_iff [THEN iffD2])
  then have "?v < 2 ^ 53 * two e" by (intro mult_strict_right_mono) simp_all
  with x have "10 ^ 17 * ten ?x < 2 ^ 53 * two e" by linarith
  then have "762939453125 * ten ?x < 68719476736 * two e" by simp
  then have "4 * ten ?x < two e" using two_pos(1) [of e] by linarith
  moreover have "\<bar>real ?lo * ten ?x - ?v\<bar> \<le> ten ?x" using lo by (simp add: distrib_right)
  moreover have "4 * z < w" if "4 * t < w" and "z \<le> t" for z t w :: real using that by linarith
  ultimately have near: "4 * \<bar>real ?lo * ten ?x - ?v\<bar> < two e" by blast
  have "0 < ?lo"
  proof (rule ccontr)
    assume "\<not> 0 < ?lo"
    then have "?v < ten ?x" using lo(2) by simp
    moreover have "ten ?x \<le> 10 ^ 17 * ten ?x" by simp
    ultimately show False using x by linarith
  qed
  then have "f64_of_ratio n (fst (dec_ratio ?lo ?x)) (snd (dec_ratio ?lo ?x)) = Fin n m e"
    by (intro f64_of_near_ratio [OF assms(1)]) (simp_all only: dec_ratio_pos dec_ratio_real near)
  then show "reads_back (Fin n m e) ?lo ?x" by (simp add: reads_back_def case_prod_beta)
qed

lemma display_finite:
  assumes "f64_canon m e"
  shows "\<exists>d x. f64_display (Fin n m e) = (if n then ''-'' else '''') @ place_point (nat_to_str d) x \<and>
               f64_of_ratio n (fst (dec_ratio d x)) (snd (dec_ratio d x)) = Fin n m e"
proof -
  define a b where "a = (if 0 \<le> e then m * 2 ^ nat e else m)" and "b = (if 0 \<le> e then 1 else 2 ^ nat (- e) :: nat)"
  have m: "0 < m" and e: "- 1074 \<le> e" using assms by (auto simp: f64_canon_def)
  have pos: "0 < a" "0 < b" using m by (simp_all add: a_def b_def)
  have v: "real a / real b = real m * two e" by (simp add: a_def b_def two_def power_int_def field_simps)
  have "b \<le> 2 ^ nat (- e)" by (simp add: b_def)
  also have "\<dots> \<le> 2 ^ 1074" using e by (intro power_increasing) simp_all
  also have "\<dots> \<le> (10 :: nat) ^ 400" by simp
  also have "\<dots> \<le> a * 10 ^ 400" using pos(1) by simp
  finally have small: "b \<le> a * 10 ^ 400" .
  have f: "f64_of_ratio n a b = Fin n m e" by (rule f64_of_near_ratio [OF assms pos]) (simp add: v)
  obtain d x where dx: "shortest_digits 17 1 (Fin n m e) a b (dec_exp a b) = (d, x)" by fastforce
  have "reads_back (Fin n m e) d x" using shortest_digits_of_double [OF assms pos small v, of n] by (simp only: dx prod.case)
  moreover have ab: "(if 0 \<le> e then (m * 2 ^ nat e, 1) else (m, 2 ^ nat (- e))) = (a, b)" by (simp add: a_def b_def)
  have "f64_display (Fin n m e) = (if n then ''-'' else '''') @ place_point (nat_to_str d) x"
    using m by (simp only: f64_display_def f64.case Let_def ab prod.case f dx) simp
  ultimately show ?thesis by (auto simp: reads_back_def case_prod_beta)
qed

lemma parse_f64_signed:
  assumes "is_digit c"
  shows "parse_f64 ((if n then ''-'' else '''') @ c # t) = parse_decimal n (c # t)"
proof -
  have "c \<noteq> CHR ''-''" "c \<noteq> CHR ''+''" "ascii_lower c = c" "c \<noteq> CHR ''i''" "c \<noteq> CHR ''n''"
    using assms by (auto simp: is_digit_def ascii_lower_def)
  then show ?thesis by (simp add: parse_f64_def to_ascii_lowercase_def)
qed

lemma parse_display:
  assumes "f64_wf f"
  shows "parse_f64 (f64_display f) = Some f"
proof (cases f)
  case (Fin n m e)
  show ?thesis
  proof (cases "m = 0")
    case True
    with assms Fin have "f = Fin n 0 0" by (auto simp: f64_canon_def)
    then show ?thesis
      using parse_f64_signed [of "CHR ''0''" n "[]"] parse_decimal_digits [of "''0''" n]
      by (simp add: f64_display_def is_digit_def f64_of_ratio_def float_of_ratio_def digits_val_def digit_val_def)
  next
    case False
    with assms Fin display_finite [of m e n] obtain d x where
      "f64_display f = (if n then ''-'' else '''') @ place_point (nat_to_str d) x"
      and f: "f64_of_ratio n (fst (dec_ratio d x)) (snd (dec_ratio d x)) = f" by auto
    moreover obtain c t where "place_point (nat_to_str d) x = c # t" "is_digit c" using place_point_head by blast
    ultimately have "parse_f64 (f64_display f) = parse_decimal n (place_point (nat_to_str d) x)"
      by (simp only: parse_f64_signed)
    then show ?thesis by (simp only: parse_decimal_place_point f)
  qed
next
  case NaN
  have "parse_f64 (f64_display NaN) = Some NaN" by code_simp
  with NaN show ?thesis by simp
next
  case (Inf n)
  have "parse_f64 (f64_display (Inf True)) = Some (Inf True)" "parse_f64 (f64_display (Inf False)) = Some (Inf False)"
    by code_simp+
  with Inf show ?thesis by (cases n) simp_all
qed

lemma display_solid: "is_ascii (f64_display f) \<and> list_all (\<lambda>c. \<not> ws_ascii c) (f64_display f)"
proof -
  have digits: "c \<in> set (nat_to_str d) \<Longrightarrow> is_digit c" for c d using nat_to_str_digits [of d] by (simp add: list_all_iff)
  have point: "is_digit c \<or> c = CHR ''.''" if "c \<in> set (place_point (nat_to_str d) x)" for c d x
    using that digits [of c d]
    by (auto simp: place_point_def is_digit_def dest: in_set_takeD in_set_dropD split: if_splits)
  have fin: "is_digit c \<or> c \<in> set ''-.''" if "c \<in> set (f64_display (Fin n m e))" for c n m e
  proof (cases "m = 0")
    case False
    obtain d x where "f64_display (Fin n m e) = (if n then ''-'' else []) @ place_point (nat_to_str d) x"
      using False by (simp add: f64_display_def case_prod_beta)
    with that point [of c d x] show ?thesis by (auto split: if_splits)
  qed (use that in \<open>auto simp: f64_display_def is_digit_def split: if_splits\<close>)
  have "is_digit c \<or> c \<in> set ''-.NaNinf''" if "c \<in> set (f64_display f)" for c
  proof (cases f)
    case (Fin n m e)
    with that fin [of c n m e] show ?thesis by auto
  qed (use that in \<open>auto simp: f64_display_def split: if_splits\<close>)
  then have "byte c < 128 \<and> \<not> ws_ascii c" if "c \<in> set (f64_display f)" for c
    using that by (fastforce simp: is_digit_def ws_ascii_def)
  then show ?thesis by (simp add: is_ascii_def list_all_iff)
qed

lemma display_of_canon: "f64_wf (Fin n m e) \<Longrightarrow> f64_display (Fin n m e) \<notin> {''NaN'', ''Infinity'', ''-Infinity''}"
proof
  assume "f64_wf (Fin n m e)" and "f64_display (Fin n m e) \<in> {''NaN'', ''Infinity'', ''-Infinity''}"
  then have "parse_f64 ''NaN'' = Some (Fin n m e) \<or> parse_f64 ''Infinity'' = Some (Fin n m e)
    \<or> parse_f64 ''-Infinity'' = Some (Fin n m e)"
    using parse_display [of "Fin n m e"] by auto
  moreover have "parse_f64 ''NaN'' = Some NaN" "parse_f64 ''Infinity'' = Some (Inf False)" "parse_f64 ''-Infinity'' = Some (Inf True)"
    by code_simp+
  ultimately show False by simp
qed

lemma read_float_text:
  assumes "f64_wf f"
  shows "json_to_f64 (JString (format_float_text f)) tt = Inr f"
proof (cases f)
  case NaN
  have "trim ''NaN'' = ''NaN''" by code_simp
  with NaN show ?thesis by (simp add: json_to_f64_def format_float_text_def)
next
  case (Inf n)
  have "trim ''Infinity'' = ''Infinity''" "trim ''-Infinity'' = ''-Infinity''" by code_simp+
  with Inf show ?thesis by (simp add: json_to_f64_def format_float_text_def)
next
  case (Fin n m e)
  have "trim (f64_display f) = f64_display f" using display_solid by (intro trim_solid) blast+
  moreover have "f64_display f \<notin> {''NaN'', ''Infinity'', ''-Infinity''}" using display_of_canon assms Fin by blast
  ultimately show ?thesis
    using Fin parse_display [OF assms] by (simp add: json_to_f64_def format_float_text_def ok_or_def)
qed

section \<open>Every double that is read is well-formed\<close>

lemma rnd_bounds:
  assumes "0 \<le> y"
  shows "real l \<le> y \<Longrightarrow> l \<le> rnd y" and "y < real u \<Longrightarrow> rnd y \<le> u"
proof -
  assume "real l \<le> y"
  then have "l \<le> nat \<lfloor>y\<rfloor>" by (simp add: le_nat_floor)
  then show "l \<le> rnd y" by (simp add: rnd_def)
next
  assume "y < real u"
  then have "nat \<lfloor>y\<rfloor> < u" using assms by (simp add: nat_less_iff floor_less_iff)
  then show "rnd y \<le> u" by (simp add: rnd_def)
qed

lemma f64_of_ratio_wf:
  assumes "0 < b"
  shows "f64_wf (f64_of_ratio n a b)"
proof (cases "a = 0")
  case True
  then show ?thesis by (simp add: f64_of_ratio_def float_of_ratio_def)
next
  case False
  then have a: "0 < a" by simp
  obtain q where q: "q = real a / real b" by simp
  then have q0: "0 \<le> q" by simp
  obtain e0 where e0: "fits_in 53 q e0" unfolding q using ratio_fits [OF a assms] by blast
  define e where "e = max (- 1074) e0"
  have hi: "q / two e < 2 ^ 53"
  proof -
    have "q < two (53 + e0)" using e0 by (simp add: fits_in_iff)
    also have "\<dots> \<le> two (53 + e)" using two_less_iff [of "53 + e" "53 + e0"] by (simp add: e_def not_less [symmetric])
    finally show ?thesis using two_nat [of 53] by (simp add: two_add pos_divide_less_eq)
  qed
  then have "rnd (q / two e) \<le> 2 ^ 53" using q0 by (intro rnd_bounds(2)) simp_all
  moreover have "2 ^ 52 \<le> rnd (q / two e)" if "- 1074 \<le> e0"
    using that e0 q0 two_nat [of 52] by (intro rnd_bounds(1)) (simp_all add: fits_in_def e_def max_def)
  moreover have "e = - 1074" if "\<not> - 1074 \<le> e0" using that by (simp add: e_def)
  moreover have "f64_of_ratio n a b = pack 53 971 n (rnd (q / two e)) e"
    unfolding f64_of_ratio_def q e_def by (rule float_of_ratio_real [OF a assms e0 [unfolded q]])
  ultimately show ?thesis
    by (cases "- 1074 \<le> e0") (auto simp: pack_def f64_canon_def Let_def e_def)
qed

lemma parse_f64_wf: "parse_f64 s = Some f \<Longrightarrow> f64_wf f"
  by (auto simp: parse_f64_def parse_decimal_def Let_def f64_of_ratio_wf split: if_splits prod.splits option.splits list.splits)

lemma read_float_wf: "json_to_f64 (JString s) tt = Inr f \<Longrightarrow> f64_wf f"
  by (auto simp: json_to_f64_def ok_or_def parse_f64_wf split: if_splits option.splits)

interpretation f64: text_codec f64_display parse_f64 f64_wf
  by unfold_locales (simp_all add: parse_display parse_f64_wf)

text \<open>The text of a double cell, read by the gateway's conversion.\<close>

definition ok_value :: "'a pg_result \<Rightarrow> 'a option" where
  "ok_value r = (case r of Inr x \<Rightarrow> Some x | Inl _ \<Rightarrow> None)"

lemma ok_value_Some [simp]: "ok_value r = Some x \<longleftrightarrow> r = Inr x"
  by (simp add: ok_value_def split: sum.split)

interpretation double_cell: text_codec format_float_text "\<lambda>s. ok_value (json_to_f64 (JString s) tt)" f64_wf for tt
  by unfold_locales (simp_all add: read_float_text read_float_wf)

lemma leading_zeros_none: "b \<le> a * 10 \<Longrightarrow> leading_zeros n a b = 0"
  by (cases n) simp_all

lemma one_half: "format_float_text (Fin False 4503599627370496 (- 53)) = ''0.5''"
proof -
  have k: "dec_exp 4503599627370496 9007199254740992 = 0" by (simp add: dec_exp_def leading_zeros_none)
  have d: "f64_of_ratio False 5 10 = Fin False 4503599627370496 (- 53)"
    by (simp add: f64_of_ratio_def float_of_ratio_def bit_len.simps scaled_def round_even_def)
  have f: "f64_of_ratio False 4503599627370496 9007199254740992 = Fin False 4503599627370496 (- 53)"
    by (simp add: f64_of_ratio_def float_of_ratio_def bit_len.simps scaled_def round_even_def)
  have c: "nat_to_str 5 = ''5''" by code_simp
  show ?thesis
    by (simp add: format_float_text_def f64_display_def k f d c shortest_digits.simps reads_back_def dec_ratio_def place_point_def)
qed

section \<open>Properties\<close>

text \<open>C17. Doubles survive their text form. Whatever the double (zeros with their sign, subnormal numbers,
  NaN and the infinities included), the gateway's own conversion reads the text it prints for it as exactly
  the same double, so that different doubles have different texts; and every text that conversion accepts
  reads as a double of the format.\<close>

theorem float_text_roundtrip:
  "(f64_wf f \<longrightarrow> json_to_f64 (JString (format_float_text f)) tt = Inr f)
   \<and> (f64_wf f \<and> f64_wf g \<and> format_float_text f = format_float_text g \<longrightarrow> f = g)
   \<and> (json_to_f64 (JString s) tt = Inr f \<longrightarrow> f64_wf f)"
  using double_cell.read_printed [of f tt] double_cell.print_inj [of f g] double_cell.read_valid [of s tt f] by auto

text \<open>Witness: one half, printed with one digit, and the smallest subnormal number below zero.\<close>

theorem float_text_roundtrip_witness:
  "format_float_text (Fin False 4503599627370496 (- 53)) = ''0.5''
   \<and> json_to_f64 (JString ''0.5'') ''double'' = Inr (Fin False 4503599627370496 (- 53))
   \<and> json_to_f64 (JString (format_float_text (Fin True 1 (- 1074)))) ''double'' = Inr (Fin True 1 (- 1074))"
  using one_half float_text_roundtrip [of "Fin False 4503599627370496 (- 53)" "''double''" NaN "''0.5''"]
    float_text_roundtrip [of "Fin True 1 (- 1074)" "''double''" NaN "''0.5''"]
  by (simp add: f64_canon_def)

end
