(* ===== verification/Row_Conformance.thy ===== *)
theory Row_Conformance
  imports Trino_Stream Float_Roundtrip
begin

text \<open>
  The typing of rows: a value sent in a column conforms to the type and the format the schema announced
  for it. The lemmas follow the encoder from one conversion to a cell and from a cell to a row; the
  properties also relate the two formats of the same cell to each other, so that a client that asks for
  binary results sees the value it would have read as text.
\<close>

section \<open>Conformance\<close>

text \<open>The types whose binary form is the text itself.\<close>

definition text_like :: "pg_type list" where
  "text_like = [VARCHAR, TEXT, BPCHAR, NAME, UNKNOWN]"

fun binary_conforms :: "pg_type \<Rightarrow> pg_value \<Rightarrow> bool" where
  "binary_conforms ty VNull \<longleftrightarrow> True"
| "binary_conforms ty (VText s) \<longleftrightarrow> ty \<in> set text_like"
| "binary_conforms ty (VBool b) \<longleftrightarrow> ty = BOOL"
| "binary_conforms ty (VI16 n) \<longleftrightarrow> ty = INT2 \<and> - (2 ^ 15) \<le> n \<and> n < 2 ^ 15"
| "binary_conforms ty (VI32 n) \<longleftrightarrow> ty = INT4 \<and> - (2 ^ 31) \<le> n \<and> n < 2 ^ 31"
| "binary_conforms ty (VI64 n) \<longleftrightarrow> ty = INT8 \<and> - (2 ^ 63) \<le> n \<and> n < 2 ^ 63"
| "binary_conforms ty (VF32 f) \<longleftrightarrow> ty = FLOAT4"
| "binary_conforms ty (VF64 f) \<longleftrightarrow> ty = FLOAT8"
| "binary_conforms ty (VDecimal d) \<longleftrightarrow> ty = NUMERIC"
| "binary_conforms ty (VTimestamp t) \<longleftrightarrow> ty = TIMESTAMP"
| "binary_conforms ty (VTimestamptz t) \<longleftrightarrow> ty = TIMESTAMPTZ"
| "binary_conforms ty (VDate d) \<longleftrightarrow> ty = DATE"
| "binary_conforms ty (VTime t) \<longleftrightarrow> ty = TIME"
| "binary_conforms ty (VTimetz t) \<longleftrightarrow> accepts ty"

fun text_conforms :: "pg_value \<Rightarrow> bool" where
  "text_conforms VNull \<longleftrightarrow> True"
| "text_conforms (VText s) \<longleftrightarrow> True"
| "text_conforms _ \<longleftrightarrow> False"

definition conforms :: "field_info \<Rightarrow> pg_value \<Rightarrow> bool" where
  "conforms f v = (case fi_format f of Text \<Rightarrow> text_conforms v | Binary \<Rightarrow> binary_conforms (fi_type f) v)"

text \<open>JSON values whose numbers answer as the JSON library documents.\<close>

definition json_wf :: "json \<Rightarrow> bool" where
  "json_wf v = (case v of JNumber n \<Rightarrow> number_wf n | _ \<Rightarrow> True)"

section \<open>Cells\<close>

lemma opt_text_conforms [simp]: "text_conforms (opt_text t)"
  by (cases t) (simp_all add: opt_text_def)

lemma opt_text_binary [simp]: "ty \<in> set text_like \<Longrightarrow> binary_conforms ty (opt_text t)"
  by (cases t) (simp_all add: opt_text_def)

lemma binary_cell_conforms:
  assumes "encode_binary_cell cv v ty tt = Inr w" and "json_wf v"
  shows "binary_conforms ty w"
proof -
  have i64: "in_i64 i" if "json_to_i64 v tt = Inr i" for i
    by (rule json_to_i64_range [OF that]) (use assms(2) in \<open>simp add: json_wf_def\<close>)
  have tl: "ty \<in> set text_like \<longleftrightarrow> ty = VARCHAR \<or> ty = TEXT \<or> ty = BPCHAR \<or> ty = NAME \<or> ty = UNKNOWN"
    by (auto simp: text_like_def)
  show ?thesis
  proof (cases "ty \<in> set text_like")
    case True
    with assms(1) have "w = opt_text (encode_value cv v tt)" by (auto simp: encode_binary_cell_def tl split: if_splits)
    with True show ?thesis by simp
  next
    case False
    with assms(1) tl i64 show ?thesis
      by (auto simp: encode_binary_cell_def in_i64_def accepts_def split: if_splits sum.splits)
  qed
qed

lemma cell_conforms:
  assumes "encode_cell cv v (fi_type f) tt (fi_format f) = Inr w" and "json_wf v"
  shows "conforms f w"
  using assms binary_cell_conforms [of cv v "fi_type f" tt w]
  by (auto simp: encode_cell_def conforms_def split: if_splits field_format.splits)

section \<open>Rows\<close>

lemma encode_row_from_conforms:
  assumes "encode_row_from cv enc schema idx cells = Inr vals" and "list_all (json_wf \<circ> fst) cells"
    and "idx + length cells \<le> length schema"
  shows "list_all2 conforms (take (length cells) (drop idx schema)) vals"
  using assms
proof (induction cells arbitrary: idx vals)
  case (Cons cell cells)
  obtain v col where cell: "cell = (v, col)" by force
  from Cons.prems(1) obtain w ws where w: "encode_cell cv v (fi_type (schema ! idx)) (trino_type col) (fi_format (schema ! idx)) = Inr w"
      "encode_row_from cv enc schema (Suc idx) cells = Inr ws" "vals = w # ws"
    by (auto simp: cell split: sum.splits option.splits)
  have "list_all2 conforms (take (length cells) (drop (Suc idx) schema)) ws"
    by (rule Cons.IH [OF w(2)]) (use Cons.prems in simp_all)
  moreover have "conforms (schema ! idx) w" by (rule cell_conforms [OF w(1)]) (use Cons.prems(2) cell in simp)
  moreover have "drop idx schema = schema ! idx # drop (Suc idx) schema"
    using Cons.prems(3) by (simp add: Cons_nth_drop_Suc)
  ultimately show ?case by (simp add: w(3))
qed simp

lemma build_pg_schema_length [simp]: "length (build_pg_schema columns fmt) = length columns"
  by (simp add: build_pg_schema_def)

lemma row_conforms:
  assumes "encode_row cv enc row columns (build_pg_schema columns fmt) = Inr vals" and "list_all json_wf row"
  shows "list_all2 conforms (take (length row) (build_pg_schema columns fmt)) vals"
proof -
  have "list_all (json_wf \<circ> fst) (zip row columns)"
    using assms(2) by (auto simp: list_all_iff dest: set_zip_leftD)
  from encode_row_from_conforms [OF assms(1) [unfolded encode_row_def] this]
  have "list_all2 conforms (take (min (length row) (length columns)) (build_pg_schema columns fmt)) vals" by simp
  moreover have "take (min (length row) (length columns)) (build_pg_schema columns fmt) = take (length row) (build_pg_schema columns fmt)"
    by (rule nth_equalityI) auto
  ultimately show ?thesis by simp
qed

text \<open>A field is null exactly where Trino's value is.\<close>

lemma cell_null:
  assumes "encode_cell cv v ty tt fmt = Inr w"
  shows "w = VNull \<longleftrightarrow> v = JNull"
proof (cases "v = JNull")
  case True
  with assms show ?thesis by (simp add: encode_cell_def is_null_def)
next
  case False
  then have "\<not> is_null v" by (cases v) (simp_all add: is_null_def)
  with assms binary_cell_not_null [OF False, of cv ty tt] text_value_null [OF False, of cv ty tt] False show ?thesis
    by (cases fmt) (auto simp: encode_cell_def opt_text_def)
qed

lemma encode_row_from_null:
  "encode_row_from cv enc schema idx cells = Inr vals \<Longrightarrow> list_all2 (\<lambda>(v, col) w. w = VNull \<longleftrightarrow> v = JNull) cells vals"
proof (induction cells arbitrary: idx vals)
  case (Cons cell cells)
  obtain v col where cell: "cell = (v, col)" by force
  from Cons.prems obtain w ws where w: "encode_cell cv v (fi_type (schema ! idx)) (trino_type col) (fi_format (schema ! idx)) = Inr w"
      "encode_row_from cv enc schema (Suc idx) cells = Inr ws" "vals = w # ws"
    by (auto simp: cell split: sum.splits option.splits)
  from cell_null [OF w(1)] Cons.IH [OF w(2)] show ?case by (simp add: w(3) cell)
qed simp

section \<open>Text and binary\<close>

lemma trim_int_to_str: "trim (int_to_str i) = int_to_str i"
  using nat_to_str_digits [of "nat i"] nat_to_str_digits [of "nat (- i)"]
  by (intro trim_solid) (auto simp: int_to_str_def is_ascii_def list_all_iff is_digit_def ws_ascii_def)

interpretation int_cell: text_codec int_to_str "\<lambda>s. ok_value (json_to_i64 (JString s) tt)" in_i64 for tt
proof
  show "ok_value (json_to_i64 (JString (int_to_str i)) tt) = Some i" if "in_i64 i" for i
    using that by (simp add: json_to_i64_def trim_int_to_str parse_i64_int_to_str conv_option_defs)
  show "in_i64 i" if "ok_value (json_to_i64 (JString s) tt) = Some i" for s i
    using json_to_i64_range [of "JString s" tt i] that by simp
qed


text \<open>The Trino type of a numeric column, without parameters.\<close>

definition base_names :: "pg_type \<Rightarrow> str list option" where
  "base_names ty =
     (case ty of
        INT2 \<Rightarrow> Some [''tinyint'', ''smallint''] | INT4 \<Rightarrow> Some [''integer''] | INT8 \<Rightarrow> Some [''bigint'']
      | FLOAT4 \<Rightarrow> Some [''real''] | FLOAT8 \<Rightarrow> Some [''double''] | NUMERIC \<Rightarrow> Some [''decimal'']
      | _ \<Rightarrow> None)"

definition base_fits :: "pg_type \<Rightarrow> str \<Rightarrow> bool" where
  "base_fits ty tt = (case base_names ty of Some ns \<Rightarrow> to_lowercase (base_type tt) \<in> set ns | None \<Rightarrow> True)"

lemma integer_text:
  assumes "json_to_i64 (JNumber n) tt = Inr i" and "number_wf n" and "\<And>u. as_u64 n = Some u \<Longrightarrow> u < 2 ^ 63"
    and "to_lowercase base \<in> {''tinyint'', ''smallint'', ''integer'', ''bigint''}"
  shows "encode_number n base = int_to_str i"
proof -
  consider "as_i64 n = Some i" | u where "as_i64 n = None" "as_u64 n = Some u" "i = int u"
    | f where "as_i64 n = None" "as_u64 n = None" "as_f64 n = Some f" "f64_to_i64_exact f = Some i"
  proof (cases "as_i64 n")
    case None
    show thesis
      by (cases "as_u64 n") (use assms(1,3) that None in \<open>auto simp: json_to_i64_def conv_option_defs i64_try_from_def
          Option.bind_eq_Some_conv split: option.splits if_splits\<close>)
  qed (use assms(1) that in \<open>auto simp: json_to_i64_def conv_option_defs\<close>)
  then show ?thesis
  proof cases
    case (3 f)
    then have "f64_is_finite f" "fits_i64 f" "i = f64_as_i64 f"
      by (cases f; auto simp: f64_to_i64_exact_def fits_i64_def f64_is_finite_def split: if_splits)+
    with 3 assms(4) show ?thesis by (auto simp: encode_number_def Let_def)
  qed (use assms(4) in \<open>auto simp: encode_number_def Let_def int_to_str_def\<close>)
qed

text \<open>
  The text \<open>t\<close> of a cell agrees with its binary value: the gateway's own conversions read the value back
  from the text. Instants and times with a zone are printed instead.
\<close>

definition agrees :: "conv \<Rightarrow> pg_type \<Rightarrow> str \<Rightarrow> pg_value \<Rightarrow> str \<Rightarrow> bool" where
  "agrees cv ty tt b t =
     (case b of
        VTimestamptz dt \<Rightarrow> t = render_timestamptz_text cv dt
      | VTimetz x \<Rightarrow> t = to_pg_text cv x
      | VF64 f \<Rightarrow> json_to_f64 (JString t) tt = Inr f
      | VF32 g \<Rightarrow> (\<exists>f. g = f64_as_f32 f \<and> json_to_f64 (JString t) tt = Inr f)
      | _ \<Rightarrow> encode_binary_cell cv (JString t) ty tt = Inr b)"

lemma text_like_binary: "ty \<in> set text_like \<Longrightarrow> encode_binary_cell cv v ty tt = Inr (opt_text (encode_value cv v tt))"
  by (auto simp: encode_binary_cell_def text_like_def)

lemma text_like_agrees:
  assumes "ty \<in> set text_like" and "encode_binary_cell cv v ty tt = Inr b" and "v \<noteq> JNull"
  shows "\<exists>t. text_value cv v ty tt = Some t \<and> agrees cv ty tt b t"
proof -
  obtain t where t: "encode_value cv v tt = Some t" using encode_value_null [of cv v tt] assms(3) by auto
  have "text_value cv v ty tt = Some t" using assms(1) t by (auto simp: text_value_def text_like_def)
  moreover have "b = VText t" using assms(2) text_like_binary [OF assms(1), of cv v tt] t by (simp add: opt_text_def)
  moreover have "encode_value cv (JString t) tt = Some t" by (simp add: encode_value_def)
  ultimately show ?thesis using text_like_binary [OF assms(1), of cv "JString t" tt] by (simp add: agrees_def opt_text_def)
qed

lemma string_agrees:
  assumes "encode_binary_cell cv (JString s) ty tt = Inr b"
  shows "\<exists>t. text_value cv (JString s) ty tt = Some t \<and> agrees cv ty tt b t"
proof -
  consider "ty = TIMESTAMPTZ" | "ty = TIMETZ" | "ty \<noteq> TIMESTAMPTZ" "ty \<noteq> TIMETZ" by blast
  then show ?thesis
  proof cases
    case 3
    then have t: "text_value cv (JString s) ty tt = Some s" by (simp add: text_value_def encode_value_def)
    have "ty = FLOAT4 \<and> (\<exists>f. b = VF32 (f64_as_f32 f) \<and> json_to_f64 (JString s) tt = Inr f)
        \<or> ty = FLOAT8 \<and> (\<exists>f. b = VF64 f \<and> json_to_f64 (JString s) tt = Inr f)
        \<or> (\<forall>f g x y. b \<noteq> VF32 f \<and> b \<noteq> VF64 g \<and> b \<noteq> VTimestamptz x \<and> b \<noteq> VTimetz y)"
      using assms 3 by (auto simp: encode_binary_cell_def opt_text_def split: if_splits sum.splits option.splits)
    with t assms show ?thesis by (auto simp: agrees_def split: pg_value.split)
  qed (use assms in \<open>auto simp: encode_binary_cell_def json_to_timestamptz_def json_to_timetz_def as_str_def text_value_def
        agrees_def ok_or_def split: option.splits\<close>)
qed

lemma number_agrees:
  assumes "encode_binary_cell cv (JNumber n) ty tt = Inr b" and "number_wf n" and "base_fits ty tt"
    and "\<And>u. as_u64 n = Some u \<Longrightarrow> u < 2 ^ 63" and "\<And>f. as_f64 n = Some f \<Longrightarrow> f64_wf f"
  shows "\<exists>t. text_value cv (JNumber n) ty tt = Some t \<and> agrees cv ty tt b t"
proof (cases "ty \<in> set text_like")
  case True
  from text_like_agrees [OF True assms(1)] show ?thesis by simp
next
  case False
  have t: "text_value cv (JNumber n) ty tt = Some (encode_number n (base_type tt))"
    by (simp add: text_value_def as_str_def encode_value_def Let_def)
  consider "ty \<in> {INT2, INT4, INT8}" | "ty = FLOAT4" | "ty = FLOAT8" | "ty = NUMERIC"
    using assms(1) False
    by (auto simp: encode_binary_cell_def text_like_def json_to_bool_def json_to_timestamp_def json_to_timestamptz_def
        json_to_date_def json_to_time_def json_to_timetz_def as_str_def split: if_splits)
  then show ?thesis
  proof cases
    case 1
    then obtain i where i: "json_to_i64 (JNumber n) tt = Inr i" using assms(1) by (auto simp: encode_binary_cell_def split: sum.splits)
    have "encode_number n (base_type tt) = int_to_str i"
      by (rule integer_text [OF i assms(2,4)]) (use 1 assms(3) in \<open>auto simp: base_fits_def base_names_def\<close>)
    moreover have "in_i64 i" by (rule json_to_i64_range [OF i]) (use assms(2) in simp)
    then have "json_to_i64 (JString (int_to_str i)) tt = Inr i" using int_cell.read_printed by simp
    ultimately show ?thesis
      using 1 i assms(1) t by (auto simp: encode_binary_cell_def agrees_def split: if_splits)
  next
    case 4
    then have "encode_number n (base_type tt) = num_text n"
      using assms(3) by (auto simp: base_fits_def base_names_def encode_number_def Let_def)
    with 4 assms(1) t show ?thesis by (auto simp: encode_binary_cell_def agrees_def json_to_decimal_def)
  qed (use assms(1,3,5) t in \<open>auto simp: encode_binary_cell_def agrees_def base_fits_def base_names_def encode_number_def Let_def
        json_to_f64_def [of "JNumber n"] ok_or_def read_float_text split: option.splits\<close>)
qed

lemma other_agrees:
  assumes "encode_binary_cell cv v ty tt = Inr b" and "v = JBool x \<or> v = JArray xs \<or> v = JObject kvs"
  shows "\<exists>t. text_value cv v ty tt = Some t \<and> agrees cv ty tt b t"
proof (cases "ty \<in> set text_like")
  case True
  from text_like_agrees [OF True assms(1)] assms(2) show ?thesis by auto
next
  case False
  with assms have "ty = BOOL \<and> v = JBool x \<and> b = VBool x"
    by (auto simp: encode_binary_cell_def text_like_def json_to_bool_def json_to_i64_def json_to_f64_def json_to_decimal_def
        json_to_timestamp_def json_to_timestamptz_def json_to_date_def json_to_time_def json_to_timetz_def as_str_def split: if_splits)
  then show ?thesis by (auto simp: text_value_def encode_value_def agrees_def encode_binary_cell_def json_to_bool_def)
qed

section \<open>Properties\<close>

text \<open>C15. Rows have the type they were announced with. For every row Trino sends with as many values as
  columns, whatever formats the client bound, an encoded row has one field per column; each field is of
  the constructor, and within the range, that the announced PostgreSQL type and format call for, and it is
  null exactly where Trino's value is null. The announced types are those of Trino's columns.\<close>

theorem encoded_rows_conform:
  assumes "encode_row cv enc row columns (build_pg_schema columns fmt) = Inr vals"
    and "list_all json_wf row" and "length row = length columns"
  shows "list_all2 conforms (build_pg_schema columns fmt) vals
    \<and> list_all2 (\<lambda>v w. w = VNull \<longleftrightarrow> v = JNull) row vals
    \<and> map fi_type (build_pg_schema columns fmt) = map (trino_type_to_pg \<circ> trino_type) columns"
proof -
  have "list_all2 (\<lambda>(v, col) w. w = VNull \<longleftrightarrow> v = JNull) (zip row columns) vals"
    using assms(1) by (intro encode_row_from_null) (simp add: encode_row_def)
  then have "list_all2 (\<lambda>v w. w = VNull \<longleftrightarrow> v = JNull) row vals"
    using assms(3) by (auto simp: list_all2_conv_all_nth)
  moreover have "map fi_type (build_pg_schema columns fmt) = map (trino_type_to_pg \<circ> trino_type) columns"
    by (rule nth_equalityI) (simp_all add: build_pg_schema_def nth_enumerate_eq)
  ultimately show ?thesis using row_conforms [OF assms(1,2)] assms(3) by simp
qed

definition sample_number :: json_number where
  "sample_number = \<lparr>as_i64 = Some 42, as_u64 = Some 42, as_f64 = Some (Fin False 5910974510923776 (- 47)), num_text = ''42''\<rparr>"

theorem encoded_rows_conform_witness:
  "\<exists>vals. encode_row sample_conv (\<lambda>_ _ _. None) [JNumber sample_number, JNull]
       [\<lparr>col_name = ''n'', trino_type = ''bigint''\<rparr>, \<lparr>col_name = ''s'', trino_type = ''varchar(9)''\<rparr>]
       (build_pg_schema [\<lparr>col_name = ''n'', trino_type = ''bigint''\<rparr>, \<lparr>col_name = ''s'', trino_type = ''varchar(9)''\<rparr>] (Some (\<lambda>_. Binary)))
     = Inr vals \<and> vals = [VI64 42, VNull]
   \<and> list_all2 conforms (build_pg_schema [\<lparr>col_name = ''n'', trino_type = ''bigint''\<rparr>, \<lparr>col_name = ''s'', trino_type = ''varchar(9)''\<rparr>]
       (Some (\<lambda>_. Binary))) vals"
proof -
  let ?cols = "[\<lparr>col_name = ''n'', trino_type = ''bigint''\<rparr>, \<lparr>col_name = ''s'', trino_type = ''varchar(9)''\<rparr>]"
  have "trino_type_to_pg ''bigint'' = INT8" by code_simp
  then have e: "encode_row sample_conv (\<lambda>_ _ _. None) [JNumber sample_number, JNull] ?cols (build_pg_schema ?cols (Some (\<lambda>_. Binary)))
      = Inr [VI64 42, VNull]"
    by (simp add: encode_row_def build_pg_schema_def encode_cell_def is_null_def encode_binary_cell_def json_to_i64_def
        sample_number_def conv_option_defs)
  have wf: "list_all json_wf [JNumber sample_number, JNull]"
    by (simp add: json_wf_def number_wf_def sample_number_def in_i64_def)
  from encoded_rows_conform [OF e wf] e show ?thesis by simp
qed

text \<open>C16. The two formats agree: whenever the binary form of a cell can be sent, the text form of the same
  cell reads back, by the gateway's own conversions, as exactly the binary value, doubles included; instants
  and times with a zone are printed from it. The PostgreSQL type is one that the Trino type maps to, and a
  JSON number is a well-formed double and, as an unsigned integer, below \<open>2^63\<close>.\<close>

theorem formats_agree:
  assumes "encode_cell cv v ty tt Binary = Inr b" and "v \<noteq> JNull" and "json_wf v" and "base_fits ty tt"
    and "\<And>n u. v = JNumber n \<Longrightarrow> as_u64 n = Some u \<Longrightarrow> u < 2 ^ 63"
    and "\<And>n f. v = JNumber n \<Longrightarrow> as_f64 n = Some f \<Longrightarrow> f64_wf f"
  shows "\<exists>t. encode_cell cv v ty tt Text = Inr (VText t) \<and> agrees cv ty tt b t"
proof -
  have nn: "\<not> is_null v" using assms(2) by (cases v) (simp_all add: is_null_def)
  then have b: "encode_binary_cell cv v ty tt = Inr b" using assms(1) by (simp add: encode_cell_def)
  have "\<exists>t. text_value cv v ty tt = Some t \<and> agrees cv ty tt b t"
  proof (cases v)
    case (JNumber n)
    with number_agrees [of cv n ty tt b] b assms(3-6) show ?thesis by (simp add: json_wf_def)
  next
    case (JString s)
    with string_agrees [of cv s ty tt b] b show ?thesis by simp
  qed (use b assms(2) other_agrees [of cv v ty tt b] in auto)
  with nn show ?thesis by (auto simp: encode_cell_def opt_text_def)
qed

theorem formats_agree_witness:
  "\<exists>t. encode_cell sample_conv (JNumber sample_number) INT8 ''bigint'' Text = Inr (VText t)
     \<and> agrees sample_conv INT8 ''bigint'' (VI64 42) t"
proof (rule formats_agree)
  show "encode_cell sample_conv (JNumber sample_number) INT8 ''bigint'' Binary = Inr (VI64 42)"
    by (simp add: encode_cell_def is_null_def encode_binary_cell_def json_to_i64_def sample_number_def conv_option_defs)
  show "json_wf (JNumber sample_number)" by (simp add: json_wf_def number_wf_def sample_number_def in_i64_def)
  show "base_fits INT8 ''bigint''" by code_simp
qed (auto simp: sample_number_def f64_canon_def)

end
