(* ===== verification/Delivery.thy ===== *)
theory Delivery
  imports Query_Pipeline Row_Conformance
begin

text \<open>
  From the statement a client sends to the rows it receives: a forwarded statement is rewritten, submitted
  once, and the stream handed to the wire library yields all rows of all of Trino's pages, encoded for the
  schema announced to the client. The lemmas compose the pipeline with the streaming bridge; the properties
  state it for the simple and for the extended protocol.
\<close>

section \<open>Forwarded statements\<close>

text \<open>A single statement that no intercept and no catalog handler answers.\<close>

definition forwarded :: "'s pipe_env \<Rightarrow> str \<Rightarrow> trino_client \<Rightarrow> config \<Rightarrow> bool \<Rightarrow> 's \<Rightarrow> bool" where
  "forwarded env query tc cfg tls s \<longleftrightarrow>
     length (split_statements (pe_lib env) query) \<le> 1
     \<and> try_intercept (pe_enc env) (pe_lib env) query (parsed_query_new (pe_lib env) query) (trino_catalog cfg) (trino_schema cfg) tls = None
     \<and> handle_dynamic_catalog_query (pe_enc env) (pe_oid env) (\<lambda>q. fst (pe_get_all env tc q s))
         (references_table (pe_lib env) (parsed_query_new (pe_lib env) query)) = None"

text \<open>Trino's whole answer to a text: the first result and the pages that follow, without an error, with columns.\<close>

definition answers :: "'s trino_service \<Rightarrow> str \<Rightarrow> 's \<Rightarrow> query_result list \<Rightarrow> 's \<Rightarrow> bool" where
  "answers svc sql s rs s2 \<longleftrightarrow>
     (\<exists>r0 rs' s1. rs = r0 # rs' \<and> svc_get svc sql s = (Inr r0, s1) \<and> qr_error r0 = None
        \<and> trino_chain svc s1 (qr_next_uri r0) rs' s2)
     \<and> first_columns rs \<noteq> []"

text \<open>A stream that yields the encoded rows of the pages and then empties the cell.\<close>

definition delivers ::
  "conv \<Rightarrow> row_encoder \<Rightarrow> 's trino_service \<Rightarrow> slot \<Rightarrow> row_stream \<Rightarrow> 's \<Rightarrow> formats \<Rightarrow> query_result list \<Rightarrow> 's \<Rightarrow> bool" where
  "delivers cv enc svc a st s fmt rs s2 \<longleftrightarrow>
     (\<forall>g. \<exists>st'. drain_stream cv enc svc st s g =
        Some (map (\<lambda>row. encode_row cv enc row (first_columns rs) (build_pg_schema (first_columns rs) fmt)) (page_rows rs),
              st', s2, set_active_query_id (Some a) None g))"

lemma execute_delivers:
  assumes "answers svc sql s rs s2"
  obtains st s' where
    "execute_trino_query svc sql (Some a) fmt s g =
       Some (Inr (build_pg_schema (first_columns rs) fmt, st), s', set_active_query_id (Some a) (Some (qr_id (hd rs))) g)"
    and "delivers cv enc svc a st s' fmt rs s2"
proof -
  obtain r0 rs' s1 where r0: "rs = r0 # rs'" "svc_get svc sql s = (Inr r0, s1)" "qr_error r0 = None"
    and ch: "trino_chain svc s1 (qr_next_uri r0) rs' s2"
    using assms by (auto simp: answers_def)
  let ?g1 = "set_active_query_id (Some a) (Some (qr_id r0)) g" and ?rows = "extract_direct_rows (qr_data r0)"
  obtain k nu s' where p: "poll_columns svc (Some a) (page_columns r0) ?rows (qr_next_uri r0) s1 ?g1 =
      Some (Inr (first_columns rs, ?rows @ page_rows (take k rs'), nu), s', ?g1)"
    and ch': "trino_chain svc s' nu (drop k rs') s2"
    using poll_columns_chain [OF ch, of "Some a" "page_columns r0" ?rows ?g1] by (auto simp: r0(1))
  let ?st = "\<lparr>rs_columns = first_columns rs, rs_schema = build_pg_schema (first_columns rs) fmt, rs_slot = Some a,
      rs_rows = ?rows @ page_rows (take k rs'), rs_next_uri = nu, rs_started = False, rs_done = False\<rparr>"
  have "execute_trino_query svc sql (Some a) fmt s g =
      Some (Inr (build_pg_schema (first_columns rs) fmt, ?st), s', set_active_query_id (Some a) (Some (qr_id (hd rs))) g)"
    using r0 p by (simp add: execute_trino_query_def Let_def page_columns_def)
  moreover have rows: "rs_rows ?st @ page_rows (drop k rs') = page_rows rs"
    by (simp add: r0(1) flip: page_rows_simps(3))
  have "delivers cv enc svc a ?st s' fmt rs s2"
    unfolding delivers_def
  proof
    fix g
    have "trino_chain svc s' (rs_next_uri ?st) (drop k rs') s2" "\<not> rs_done ?st" using ch' by simp_all
    from drain_stream_chain [OF this, of cv enc g] show "\<exists>st'. drain_stream cv enc svc ?st s' g =
        Some (map (\<lambda>row. encode_row cv enc row (first_columns rs) (build_pg_schema (first_columns rs) fmt)) (page_rows rs),
              st', s2, set_active_query_id (Some a) None g)"
      unfolding rows by simp
  qed
  ultimately show thesis by (rule that)
qed

lemma process_query_delivers:
  assumes "forwarded env query tc cfg tls s" and "answers (pe_svc env tc) (trino_sql (pe_lib env) query) s rs s2"
  obtains st s' where
    "process_query env query tc cfg (Some a) fmt tls s g =
       Some (Inr [RowStream (build_pg_schema (first_columns rs) fmt) st], s', set_active_query_id (Some a) (Some (qr_id (hd rs))) g)"
    and "delivers cv (pe_enc env) (pe_svc env tc) a st s' fmt rs s2"
proof -
  obtain st s' where e: "execute_trino_query (pe_svc env tc) (trino_sql (pe_lib env) query) (Some a) fmt s g =
       Some (Inr (build_pg_schema (first_columns rs) fmt, st), s', set_active_query_id (Some a) (Some (qr_id (hd rs))) g)"
    and d: "delivers cv (pe_enc env) (pe_svc env tc) a st s' fmt rs s2"
    by (rule execute_delivers [OF assms(2)])
  have "build_pg_schema (first_columns rs) fmt \<noteq> []"
    using assms(2) build_pg_schema_length [of "first_columns rs" fmt] by (auto simp: answers_def simp del: build_pg_schema_length)
  with e assms(1) have "process_query env query tc cfg (Some a) fmt tls s g =
      Some (Inr [RowStream (build_pg_schema (first_columns rs) fmt) st], s', set_active_query_id (Some a) (Some (qr_id (hd rs))) g)"
    by (simp add: process_query_def process_single_statement_def forwarded_def trino_sql_def Let_def)
  with d show thesis by (rule that [rotated])
qed

lemma delivered_conform:
  assumes "\<forall>row \<in> set (page_rows rs). list_all json_wf row \<and> length row = length (first_columns rs)"
  shows "\<forall>vals. Inr vals \<in> set (map (\<lambda>row. encode_row cv enc row (first_columns rs) (build_pg_schema (first_columns rs) fmt)) (page_rows rs))
    \<longrightarrow> list_all2 conforms (build_pg_schema (first_columns rs) fmt) vals"
proof (intro allI impI)
  fix vals
  assume "Inr vals \<in> set (map (\<lambda>row. encode_row cv enc row (first_columns rs) (build_pg_schema (first_columns rs) fmt)) (page_rows rs))"
  then obtain row where row: "row \<in> set (page_rows rs)" "encode_row cv enc row (first_columns rs) (build_pg_schema (first_columns rs) fmt) = Inr vals"
    by auto
  from row_conforms [OF row(2)] row(1) assms show "list_all2 conforms (build_pg_schema (first_columns rs) fmt) vals" by simp
qed

section \<open>Properties\<close>

text \<open>C10. From a simple query to its rows: when a single forwarded statement gets a finite answer without an
  error, the handler returns one stream whose schema is that of Trino's columns, all text; the
  connection's cell holds the query's id; pulling the stream yields the encoded rows that the pages carry
  inline exactly once and in order, then ends and empties the connection's cell, and every row that could be encoded conforms to the
  schema.\<close>

theorem simple_query_delivers:
  assumes "session_state client = Some cs"
    and "forwarded env query (cs_trino_client cs) (cs_config cs) (is_secure client) s"
    and "answers (pe_svc env (cs_trino_client cs)) (trino_sql (pe_lib env) query) s rs s2"
    and "\<forall>row \<in> set (page_rows rs). list_all json_wf row \<and> length row = length (first_columns rs)"
  shows "\<exists>schema st s' g' items st' g''.
      simple_do_query env client query s g = Some (Inr [RowStream schema st], s', g')
    \<and> schema = build_pg_schema (first_columns rs) None
    \<and> slots g' = (slots g)(cs_active_query_id cs := Some (qr_id (hd rs)))
    \<and> drain_stream cv (pe_enc env) (pe_svc env (cs_trino_client cs)) st s' g' = Some (items, st', s2, g'')
    \<and> items = map (\<lambda>row. encode_row cv (pe_enc env) row (first_columns rs) schema) (page_rows rs)
    \<and> (\<forall>vals. Inr vals \<in> set items \<longrightarrow> list_all2 conforms schema vals)
    \<and> slots g'' = (slots g)(cs_active_query_id cs := None)"
proof -
  let ?sch = "build_pg_schema (first_columns rs) None" and ?a = "cs_active_query_id cs"
  let ?items = "map (\<lambda>row. encode_row cv (pe_enc env) row (first_columns rs) ?sch) (page_rows rs)"
  obtain st s' where q: "process_query env query (cs_trino_client cs) (cs_config cs) (Some ?a) None (is_secure client) s g =
      Some (Inr [RowStream ?sch st], s', set_active_query_id (Some ?a) (Some (qr_id (hd rs))) g)"
    and d: "delivers cv (pe_enc env) (pe_svc env (cs_trino_client cs)) ?a st s' None rs s2"
    by (rule process_query_delivers [OF assms(2,3)])
  let ?g1 = "set_active_query_id (Some ?a) (Some (qr_id (hd rs))) g"
  obtain st' where dr: "drain_stream cv (pe_enc env) (pe_svc env (cs_trino_client cs)) st s' ?g1 =
      Some (?items, st', s2, set_active_query_id (Some ?a) None ?g1)"
    using d by (auto simp: delivers_def)
  note delivered_conform [OF assms(4), of cv "pe_enc env" None]
  moreover have "simple_do_query env client query s g = Some (Inr [RowStream ?sch st], s', ?g1)"
    using assms(1) q by (simp add: simple_do_query_def)
  moreover have "slots ?g1 = (slots g)(?a := Some (qr_id (hd rs)))"
      "slots (set_active_query_id (Some ?a) None ?g1) = (slots g)(?a := None)"
    by (simp_all add: set_active_query_id_def)
  ultimately show ?thesis using dr by blast
qed

lemma sample_forwarded: "forwarded sample_pipe ''SELECT n'' tc default_config tls s"
proof -
  have "parsed_query_new (sample_lib []) ''SELECT n'' = \<lparr>parsed = Some []\<rparr>"
    by (simp add: parsed_query_new_def sample_lib_def)
  moreover have "split_statements (sample_lib []) ''SELECT n'' = [''SELECT n'']"
    by (simp add: split_statements_def sample_lib_def)
  moreover have "handle_dynamic_catalog_query enc oid ga (references_table (sample_lib []) \<lparr>parsed = Some []\<rparr>) = None" for enc oid ga
    by (simp add: handle_dynamic_catalog_query_def references_table_def sample_lib_def)
  ultimately show ?thesis by (simp add: forwarded_def sample_pipe_def sample_intercept)
qed

definition sample_pages :: "query_result list" where
  "sample_pages =
     [\<lparr>qr_id = ''q1'', qr_error = None, qr_columns = None, qr_data = None, qr_next_uri = Some ''u1''\<rparr>,
      \<lparr>qr_id = ''q1'', qr_error = None, qr_columns = Some [(''n'', ''varchar'')], qr_data = Some (Direct [[JString ''x'']]),
       qr_next_uri = None\<rparr>]"

lemma sample_first_columns: "first_columns sample_pages = sample_columns"
  by (simp add: sample_pages_def sample_columns_def page_columns_def trino_columns_of_def)

lemma sample_page_rows: "page_rows sample_pages = [[JString ''x'']]"
  by (simp add: sample_pages_def extract_direct_rows_def)

lemma sample_answers: "answers sample_service sql n sample_pages (Suc (Suc n))"
proof -
  have "trino_chain sample_service (Suc n) (qr_next_uri (hd sample_pages)) (tl sample_pages) (Suc (Suc n))"
    unfolding sample_pages_def list.sel query_result.select_convs
    by (rule trino_chain.next_page [where ?s1.0 = "Suc (Suc n)"]) (simp_all add: sample_service_def trino_chain.last_page)
  then have "\<exists>r0 rs' s1. sample_pages = r0 # rs' \<and> svc_get sample_service sql n = (Inr r0, s1) \<and> qr_error r0 = None
      \<and> trino_chain sample_service s1 (qr_next_uri r0) rs' (Suc (Suc n))"
    by (simp add: sample_service_def sample_pages_def)
  then show ?thesis by (simp add: answers_def sample_first_columns) (simp add: sample_columns_def)
qed

lemma sample_rows_wf: "\<forall>row \<in> set (page_rows sample_pages). list_all json_wf row \<and> length row = length (first_columns sample_pages)"
  by (simp add: sample_page_rows sample_first_columns sample_columns_def json_wf_def)

lemma sample_encoded:
  "encode_row sample_conv (\<lambda>_ _ _. None) [JString ''x''] sample_columns (build_pg_schema sample_columns fmt) = Inr [VText ''x'']"
proof -
  have t: "trino_type_to_pg ''varchar'' = VARCHAR" by code_simp
  show ?thesis
    by (cases "case fmt of None \<Rightarrow> Text | Some f \<Rightarrow> f 0")
       (simp_all add: encode_row_def sample_columns_def build_pg_schema_def t encode_cell_def is_null_def
        encode_binary_cell_def text_value_def encode_value_def opt_text_def map_ok_def)
qed

theorem simple_query_delivers_witness:
  "\<exists>schema st s' g' st' g''.
      simple_do_query sample_pipe (sample_session new_portal_cache) ''SELECT n'' 0 init_gateway = Some (Inr [RowStream schema st], s', g')
    \<and> drain_stream sample_conv (\<lambda>_ _ _. None) sample_service st s' g' = Some ([Inr [VText ''x'']], st', 2, g'')
    \<and> slots g'' = (slots init_gateway)(0 := None)"
proof -
  have cs: "session_state (sample_session new_portal_cache) = Some (sample_cs new_portal_cache)" by (simp add: sample_session_def)
  have f: "forwarded sample_pipe ''SELECT n'' (cs_trino_client (sample_cs new_portal_cache)) (cs_config (sample_cs new_portal_cache))
      (is_secure (sample_session new_portal_cache)) 0" by (simp add: sample_cs_def sample_forwarded)
  have a: "answers (pe_svc sample_pipe (cs_trino_client (sample_cs new_portal_cache))) (trino_sql (pe_lib sample_pipe) ''SELECT n'') 0
      sample_pages 2" using sample_answers [of _ 0] by (simp add: sample_pipe_def numeral_2_eq_2)
  have "pe_enc sample_pipe = (\<lambda>_ _ _. None)" "pe_svc sample_pipe tc = sample_service" for tc by (simp_all add: sample_pipe_def)
  with simple_query_delivers [OF cs f a sample_rows_wf, of init_gateway sample_conv] show ?thesis
    by (auto simp: sample_first_columns sample_page_rows sample_encoded sample_cs_def)
qed

text \<open>C11. From Bind to rows in the extended protocol: for a portal over a single forwarded statement that gets
  a finite answer without an error, with room in the cache, Describe succeeds and announces Trino's columns
  in the formats the client bound; Execute then returns the stream without asking Trino again, and pulling
  it yields the encoded rows that the pages carry inline exactly once and in order, each conforming to what
  Describe announced.\<close>

theorem portal_delivers:
  assumes "session_state client = Some cs" and "cache_ok (cs_portals cs)"
    and "length (pc_entries (cs_portals cs)) < 64 \<or> map_of (pc_entries (cs_portals cs)) (portal_name p) \<noteq> None"
    and "forwarded env (portal_statement p) (cs_trino_client cs) (cs_config cs) (is_secure client) s"
    and "answers (pe_svc env (cs_trino_client cs)) (trino_sql (pe_lib env) (portal_statement p)) s rs s2"
    and "\<forall>row \<in> set (page_rows rs). list_all json_wf row \<and> length row = length (first_columns rs)"
  shows "\<exists>schema client' s' g' st client'' items st' g''.
      do_describe_portal env client p s g = Some (Inr schema, client', s', g')
    \<and> schema = build_pg_schema (first_columns rs) (Some (result_column_format p))
    \<and> extended_do_query env client' p s' g' = Some (Inr (RowStream schema st), client'', s', g')
    \<and> drain_stream cv (pe_enc env) (pe_svc env (cs_trino_client cs)) st s' g' = Some (items, st', s2, g'')
    \<and> items = map (\<lambda>row. encode_row cv (pe_enc env) row (first_columns rs) schema) (page_rows rs)
    \<and> (\<forall>vals. Inr vals \<in> set items \<longrightarrow> list_all2 conforms schema vals)
    \<and> slots g'' (cs_active_query_id cs) = None"
proof -
  let ?fmt = "Some (result_column_format p)" and ?a = "cs_active_query_id cs"
  let ?sch = "build_pg_schema (first_columns rs) ?fmt"
  let ?items = "map (\<lambda>row. encode_row cv (pe_enc env) row (first_columns rs) ?sch) (page_rows rs)"
  obtain st s' g1 where q: "process_query env (portal_statement p) (cs_trino_client cs) (cs_config cs) (Some ?a) ?fmt (is_secure client) s g
      = Some (Inr [RowStream ?sch st], s', g1)"
    and d: "delivers cv (pe_enc env) (pe_svc env (cs_trino_client cs)) ?a st s' ?fmt rs s2"
    by (rule process_query_delivers [OF assms(4,5)])
  let ?e = "\<lparr>cp_query = portal_statement p, cp_response = RowStream ?sch st\<rparr>"
  obtain cache where i: "insert_cached (cs_portals cs) (portal_name p) ?e = Inr cache"
    by (rule insert_cached_ok [OF assms(2)]) (rule that)
  note l = insert_cached_lookup [OF assms(2) i]
  have hit: "map_of (pc_entries cache) (portal_name p) = Some ?e" using l(2) assms(3) by auto
  let ?client = "client\<lparr>session_state := Some (cs\<lparr>cs_portals := cache\<rparr>)\<rparr>"
  obtain g' where desc: "do_describe_portal env client p s g = Some (Inr ?sch, ?client, s', g')"
    using assms(1) q i by (auto simp: do_describe_portal_def run_portal_def first_response_def response_fields_def Let_def)
  have "\<exists>client''. extended_do_query env ?client p s' g' = Some (Inr (RowStream ?sch st), client'', s', g')"
    by (rule extended_do_query_cached [where cs = "cs\<lparr>cs_portals := cache\<rparr>"]) (simp_all add: l(1) hit)
  then obtain client'' where ex: "extended_do_query env ?client p s' g' = Some (Inr (RowStream ?sch st), client'', s', g')" by blast
  obtain st' where dr: "drain_stream cv (pe_enc env) (pe_svc env (cs_trino_client cs)) st s' g' =
      Some (?items, st', s2, set_active_query_id (Some ?a) None g')"
    using d by (auto simp: delivers_def)
  have "slots (set_active_query_id (Some ?a) None g') ?a = None" by (simp add: set_active_query_id_def)
  with desc ex dr delivered_conform [OF assms(6), of cv "pe_enc env" ?fmt] show ?thesis by blast
qed

theorem portal_delivers_witness:
  "\<exists>schema client' s' g' st client'' st' g''.
      do_describe_portal sample_pipe (sample_session new_portal_cache) sample_portal 0 init_gateway = Some (Inr schema, client', s', g')
    \<and> extended_do_query sample_pipe client' sample_portal s' g' = Some (Inr (RowStream schema st), client'', s', g')
    \<and> drain_stream sample_conv (\<lambda>_ _ _. None) sample_service st s' g' = Some ([Inr [VText ''x'']], st', 2, g'')"
proof -
  let ?cs = "sample_cs new_portal_cache"
  have cs: "session_state (sample_session new_portal_cache) = Some ?cs" by (simp add: sample_session_def)
  have room: "cache_ok (cs_portals ?cs)"
    "length (pc_entries (cs_portals ?cs)) < 64 \<or> map_of (pc_entries (cs_portals ?cs)) (portal_name sample_portal) \<noteq> None"
    by (simp_all add: sample_cs_def new_portal_cache_def cache_ok_def cache_wf_def)
  have f: "forwarded sample_pipe (portal_statement sample_portal) (cs_trino_client ?cs) (cs_config ?cs)
      (is_secure (sample_session new_portal_cache)) 0" by (simp add: sample_cs_def sample_portal_def sample_forwarded)
  have a: "answers (pe_svc sample_pipe (cs_trino_client ?cs)) (trino_sql (pe_lib sample_pipe) (portal_statement sample_portal)) 0
      sample_pages 2" using sample_answers [of _ 0] by (simp add: sample_pipe_def numeral_2_eq_2)
  have "pe_enc sample_pipe = (\<lambda>_ _ _. None)" "pe_svc sample_pipe tc = sample_service" for tc by (simp_all add: sample_pipe_def)
  with portal_delivers [OF cs room f a sample_rows_wf, of init_gateway sample_conv] show ?thesis
    by (auto simp: sample_first_columns sample_page_rows sample_encoded)
qed

end
