(* ===== verification/Progress.thy ===== *)
theory Progress
  imports Query_Pipeline
begin

text \<open>
  The loops of the gateway end when Trino's do. A page chain ends when following the page addresses
  reaches a page without a next address, an error or a failed request. Under that assumption on Trino
  the polling loop, the row stream and every handler return; it is the only assumption, so a client is
  kept waiting only by Trino.
\<close>

section \<open>Page chains that end\<close>

inductive chain_ends :: "'s trino_service \<Rightarrow> 's \<Rightarrow> str option \<Rightarrow> bool" for svc where
  no_next: "chain_ends svc s None"
| failed: "svc_get_next svc url s = (Inl e, s1) \<Longrightarrow> chain_ends svc s (Some url)"
| error_page: "svc_get_next svc url s = (Inr r, s1) \<Longrightarrow> qr_error r = Some e \<Longrightarrow> chain_ends svc s (Some url)"
| page: "svc_get_next svc url s = (Inr r, s1) \<Longrightarrow> qr_error r = None \<Longrightarrow> chain_ends svc s1 (qr_next_uri r) \<Longrightarrow>
     chain_ends svc s (Some url)"

inductive_simps chain_ends_None [simp]: "chain_ends svc s None"

text \<open>Trino answers: the pages of every accepted query end.\<close>

definition answers :: "'s trino_service \<Rightarrow> bool" where
  "answers svc \<longleftrightarrow>
     (\<forall>sql s r s1. svc_get svc sql s = (Inr r, s1) \<and> qr_error r = None \<longrightarrow> chain_ends svc s1 (qr_next_uri r))"

section \<open>The loops return\<close>

lemma poll_columns_returns:
  assumes "chain_ends svc s nu"
  shows "\<exists>r s' g'. poll_columns svc slot cols rows nu s g = Some (r, s', g')
    \<and> (\<forall>cs rws nu'. r = Inr (cs, rws, nu') \<longrightarrow> chain_ends svc s' nu')"
  using assms
proof (induction arbitrary: cols rows g rule: chain_ends.induct)
  case (no_next s)
  show ?case by (subst poll_columns.simps) simp
next
  case (failed url s e s1)
  show ?case using failed by (subst poll_columns.simps) (auto intro: chain_ends.failed)
next
  case (error_page url s r s1 e)
  then show ?case by (subst poll_columns.simps) (auto intro: chain_ends.error_page)
next
  case (page url s r s1)
  show ?case
  proof (cases "cols \<noteq> []")
    case True
    with page.hyps show ?thesis by (subst poll_columns.simps) (auto intro: chain_ends.page)
  next
    case False
    with page.IH page.hyps show ?thesis by (subst poll_columns.simps) simp
  qed
qed

lemma execute_returns:
  assumes "answers svc"
  shows "\<exists>r s' g'. execute_trino_query svc sql slot fmt s g = Some (r, s', g')
    \<and> (\<forall>schema st. r = Inr (schema, st) \<longrightarrow> chain_ends svc s' (rs_next_uri st))"
proof -
  obtain a s1 where a: "svc_get svc sql s = (a, s1)" by (cases "svc_get svc sql s")
  show ?thesis
  proof (cases a)
    case (Inl e)
    with a show ?thesis by (simp add: execute_trino_query_def)
  next
    case (Inr res)
    show ?thesis
    proof (cases "qr_error res")
      case None
      with assms a Inr have "chain_ends svc s1 (qr_next_uri res)" by (simp add: answers_def)
      from poll_columns_returns [OF this, of slot "case trino_columns_of res of Some cols \<Rightarrow> cols | None \<Rightarrow> []"
          "extract_direct_rows (qr_data res)" "set_active_query_id slot (Some (qr_id res)) g"]
      obtain r s' g' where p: "poll_columns svc slot (case trino_columns_of res of Some cols \<Rightarrow> cols | None \<Rightarrow> [])
          (extract_direct_rows (qr_data res)) (qr_next_uri res) s1 (set_active_query_id slot (Some (qr_id res)) g) = Some (r, s', g')"
        and e: "\<forall>cs rws nu'. r = Inr (cs, rws, nu') \<longrightarrow> chain_ends svc s' nu'" by blast
      show ?thesis
        using a Inr None p e by (cases r) (auto simp: execute_trino_query_def Let_def)
    next
      case (Some e)
      with a Inr show ?thesis by (simp add: execute_trino_query_def Let_def)
    qed
  qed
qed

lemma drain_last:
  "rs_rows st = [] \<Longrightarrow> rs_next_uri st = None \<Longrightarrow> \<exists>y. drain_stream cv enc svc st s g = Some y"
  by (subst drain_stream.simps, subst stream_next.simps) simp

lemma drain_stop:
  assumes "\<not> rs_done st" and "rs_next_uri st = Some url"
    and "svc_get_next svc url s = (a, s1)" and "\<And>r. a = Inr r \<Longrightarrow> qr_error r \<noteq> None"
  shows "\<exists>y. drain_stream cv enc svc (st\<lparr>rs_started := b, rs_rows := []\<rparr>) s g = Some y"
proof -
  let ?st = "st\<lparr>rs_started := True, rs_rows := [], rs_next_uri := None\<rparr>"
  have "\<exists>x. stream_next cv enc svc (st\<lparr>rs_started := b, rs_rows := []\<rparr>) s g = Some (Some x, ?st, s1, g)"
    using assms by (subst stream_next.simps) (cases a; auto)
  moreover have "\<exists>y. drain_stream cv enc svc ?st s1 g = Some y" by (rule drain_last) simp_all
  ultimately show ?thesis by (subst drain_stream.simps) auto
qed

lemma drain_returns:
  assumes "chain_ends svc s (rs_next_uri st)"
  shows "\<exists>y. drain_stream cv enc svc st s g = Some y"
proof (cases "rs_done st")
  case True
  then show ?thesis by (subst drain_stream.simps, subst stream_next.simps) simp
next
  case False
  from assms False show ?thesis
  proof (induction s "rs_next_uri st" arbitrary: st rule: chain_ends.induct)
    case (no_next s)
    have "\<exists>y. drain_stream cv enc svc (st\<lparr>rs_started := rs_started st \<or> rs_rows st \<noteq> [], rs_rows := []\<rparr>) s g = Some y"
      using no_next by (intro drain_last) simp_all
    with drain_stream_rows [OF no_next(2), of cv enc svc s g] show ?case by auto
  next
    case (failed url s e s1)
    have "\<exists>y. drain_stream cv enc svc (st\<lparr>rs_started := rs_started st \<or> rs_rows st \<noteq> [], rs_rows := []\<rparr>) s g = Some y"
      by (rule drain_stop [OF failed(3) failed(2) [symmetric] failed(1)]) simp
    with drain_stream_rows [OF failed(3), of cv enc svc s g] show ?case by auto
  next
    case (error_page url s r s1 e)
    have "\<exists>y. drain_stream cv enc svc (st\<lparr>rs_started := rs_started st \<or> rs_rows st \<noteq> [], rs_rows := []\<rparr>) s g = Some y"
      by (rule drain_stop [OF error_page(4) error_page(3) [symmetric] error_page(1)]) (simp add: error_page(2))
    with drain_stream_rows [OF error_page(4), of cv enc svc s g] show ?case by auto
  next
    case (page url s r s1)
    let ?st = "st\<lparr>rs_started := rs_started st \<or> rs_rows st \<noteq> [], rs_rows := []\<rparr>"
    let ?pg = "?st\<lparr>rs_started := True, rs_rows := extract_direct_rows (qr_data r), rs_next_uri := qr_next_uri r\<rparr>"
    have "drain_stream cv enc svc ?st s g = drain_stream cv enc svc ?pg s1 g"
      using page by (intro drain_stream_page [where url = url]) auto
    moreover have "\<exists>y. drain_stream cv enc svc ?pg s1 g = Some y" using page by (intro page(4)) auto
    ultimately show ?case using drain_stream_rows [OF page(6), of cv enc svc s g] by auto
  qed
qed

lemma bind_returns: "\<exists>y. f = Some y \<Longrightarrow> (\<And>y. \<exists>z. h y = Some z) \<Longrightarrow> \<exists>z. Option.bind f h = Some z"
  by auto

lemma single_statement_returns:
  assumes "answers (pe_svc env tc)"
  shows "\<exists>y. process_single_statement env query tc cfg slot fmt tls s g = Some y"
proof -
  have ex: "\<exists>y. execute_trino_query (pe_svc env tc) sql slot fmt s g = Some y" for sql
    using execute_returns [OF assms, of sql slot fmt s g] by blast
  show ?thesis
    unfolding process_single_statement_def Let_def
  proof (split option.split, intro conjI impI allI)
    show "\<exists>y. (case handle_dynamic_catalog_query (pe_enc env) (pe_oid env) (\<lambda>q. fst (pe_get_all env tc q s))
          (references_table (pe_lib env) (parsed_query_new (pe_lib env) query)) of
        None \<Rightarrow> Option.bind (execute_trino_query (pe_svc env tc)
            (rewrite_sql (pe_lib env) (case rewrite_info_schema_columns (pe_lib env) query (parsed_query_new (pe_lib env) query)
               of None \<Rightarrow> query | Some q \<Rightarrow> q)) slot fmt s g)
          (\<lambda>(r, s', g'). case r of Inl e \<Rightarrow> Some (Inl e, s', g')
             | Inr (schema, st) \<Rightarrow> if schema = [] then Some (Inr [Local (Execution ''OK'')], s', drop_stream st g')
                 else Some (Inr [RowStream schema st], s', g'))
      | Some r \<Rightarrow> Some (map_ok (map (Local \<circ> local_of)) r,
          snd (pe_get_all env tc (dynamic_sql (references_table (pe_lib env) (parsed_query_new (pe_lib env) query))) s), g)) = Some y"
      by (split option.split, intro conjI impI allI, rule bind_returns [OF ex]) (auto split: sum.split prod.split)
  qed blast
qed

lemma batch_returns:
  assumes "answers (pe_svc env tc)"
  shows "\<exists>y. process_batch env tc cfg slot fmt tls stmts out s g = Some y"
proof (induction stmts arbitrary: out s g)
  case (Cons stmt stmts)
  obtain r s1 g1 where "process_single_statement env stmt tc cfg slot fmt tls s g = Some (r, s1, g1)"
    using single_statement_returns [OF assms] by (metis prod_cases3)
  with Cons show ?case by (auto split: sum.split pgwire_error.split)
qed simp

lemma process_query_returns:
  assumes "answers (pe_svc env tc)"
  shows "\<exists>y. process_query env query tc cfg slot fmt tls s g = Some y"
  using single_statement_returns [OF assms] batch_returns [OF assms] by (auto simp: process_query_def Let_def)

lemma run_portal_returns:
  assumes "answers (pe_svc env (cs_trino_client cs))"
  shows "\<exists>y. run_portal env client cs query fmt s g = Some y"
proof -
  obtain y where "process_query env query (cs_trino_client cs) (cs_config cs) (Some (cs_active_query_id cs)) fmt
      (is_secure client) s g = Some y" using process_query_returns [OF assms] by blast
  then show ?thesis by (simp add: run_portal_def del: split_paired_Ex)
qed

section \<open>Properties\<close>

text \<open>C13. Every message is answered: when the page chains of the queries Trino accepts end (with or without
  an error), the simple query, Execute, Describe Portal and Describe Statement handlers return for every
  message, session and state of the gateway; no loop of the gateway's own runs forever.\<close>

theorem messages_answered:
  assumes "\<And>cs. session_state client = Some cs \<Longrightarrow> answers (pe_svc env (cs_trino_client cs))"
  shows "(\<exists>y. simple_do_query env client query s g = Some y) \<and> (\<exists>y. extended_do_query env client p s g = Some y)
    \<and> (\<exists>y. do_describe_portal env client p s g = Some y) \<and> (\<exists>y. do_describe_statement env client query types s g = Some y)"
proof (cases "session_state client")
  case None
  then show ?thesis
    by (simp add: simple_do_query_def extended_do_query_def do_describe_portal_def do_describe_statement_def Let_def)
next
  case (Some cs)
  note ans = assms [OF Some]
  have run: "\<exists>y. run_portal env client (cs\<lparr>cs_portals := c\<rparr>) q fmt s g' = Some y" for c q fmt g'
    by (rule run_portal_returns) (simp add: ans)
  have "\<exists>y. extended_do_query env client p s g = Some y"
  proof (cases "take_cached (cs_portals cs) (portal_name p)")
    case (Inr t)
    obtain e c where t: "t = (e, c)" by (cases t)
    with Some Inr run [of c "portal_statement p" "Some (result_column_format p)" g] show ?thesis
    proof (cases e)
      case (Some x)
      with \<open>session_state client = Some cs\<close> Inr t run [of c "portal_statement p" "Some (result_column_format p)" "drop_response (cp_response x) g"]
      show ?thesis by (auto simp: extended_do_query_def Let_def)
    qed (auto simp: extended_do_query_def Let_def)
  qed (simp add: extended_do_query_def Some)
  moreover have "\<exists>y. do_describe_portal env client p s g = Some y"
    using run_portal_returns [OF ans, of client "portal_statement p" "Some (result_column_format p)" s g]
    by (elim exE) (simp add: do_describe_portal_def Some del: split_paired_Ex)
  moreover have "\<exists>y. do_describe_statement env client query types s g = Some y"
    using run_portal_returns [OF ans, of client query None s g]
    by (elim exE) (simp add: do_describe_statement_def Let_def Some del: split_paired_Ex)
  moreover have "\<exists>y. simple_do_query env client query s g = Some y"
    using process_query_returns [OF ans] by (simp add: simple_do_query_def Some)
  ultimately show ?thesis by blast
qed

lemma sample_service_answers: "answers sample_service"
  by (auto simp: answers_def sample_service_def intro!: chain_ends.page)

theorem messages_answered_witness:
  "\<exists>y. extended_do_query sample_pipe (sample_session new_portal_cache) sample_portal 0 init_gateway = Some y"
  using messages_answered [of "sample_session new_portal_cache" sample_pipe "[]" 0 init_gateway sample_portal "[]"]
  by (simp add: sample_pipe_def sample_service_answers)

text \<open>C28. Every result ends: when Trino's page chains end, a row stream the pipeline returned, pulled in the state
  it was returned in, comes to an end after finitely many items, whatever the rows and their encoding.\<close>

theorem streams_end:
  assumes "answers svc" and "execute_trino_query svc sql slot fmt s g = Some (Inr (schema, st), s', g')"
  shows "\<exists>items st' s'' g''. drain_stream cv enc svc st s' g' = Some (items, st', s'', g'')"
proof -
  have "chain_ends svc s' (rs_next_uri st)" using execute_returns [OF assms(1), of sql slot fmt s g] assms(2) by auto
  from drain_returns [OF this, of cv enc g'] show ?thesis by (metis prod_cases4)
qed

theorem streams_end_witness:
  "\<forall>cv. \<exists>items st' s'' g''. drain_stream cv (\<lambda>_ _ _. None) sample_service (sample_stream None) 2
     (set_active_query_id (Some 0) (Some ''q1'') init_gateway) = Some (items, st', s'', g'')"
proof -
  have "execute_trino_query sample_service [] (Some 0) None 0 init_gateway =
      Some (Inr (build_pg_schema sample_columns None, sample_stream None), 2, set_active_query_id (Some 0) (Some ''q1'') init_gateway)"
    by (simp add: sample_execute numeral_2_eq_2)
  from streams_end [OF sample_service_answers this] show ?thesis by blast
qed

end
