(* ===== verification/Response_Shape.thy ===== *)
theory Response_Shape
  imports Query_Pipeline
begin

text \<open>
  The shape of responses: every row of a response the gateway makes itself has as many fields as its
  schema announces, and a row stream is built for the schema it is announced with. The predicates are
  the typing of responses; the lemmas follow the pipeline from the tables of the catalog to the handlers.
\<close>

section \<open>Well-shaped responses\<close>

definition rows_fit :: "field_info list \<Rightarrow> 'v list list \<Rightarrow> bool" where
  "rows_fit schema rows = list_all (\<lambda>row. length row = length schema) rows"

definition local_fit :: "local_response \<Rightarrow> bool" where
  "local_fit r = (case r of LocalQuery schema rows \<Rightarrow> schema \<noteq> [] \<and> rows_fit schema rows | Execution _ \<Rightarrow> True)"

definition well_shaped :: "formats \<Rightarrow> gw_response \<Rightarrow> bool" where
  "well_shaped fmt r =
     (case r of
        Local l \<Rightarrow> local_fit l
      | RowStream schema st \<Rightarrow>
          schema \<noteq> [] \<and> rs_schema st = schema \<and> schema = build_pg_schema (rs_columns st) fmt \<and> \<not> rs_started st
      | ErrorResponse _ \<Rightarrow> True)"

named_theorems shape \<open>responses of the gateway's own are well shaped\<close>

section \<open>The catalog\<close>

definition ok_fit :: "response list pg_result \<Rightarrow> bool" where
  "ok_fit r = (\<forall>rs. r = Inr rs \<longrightarrow> (\<exists>x. rs = [x] \<and> local_fit (local_of x)))"

lemma build_response_fit [shape]:
  "schema \<noteq> [] \<Longrightarrow> rows_fit schema rows \<Longrightarrow> ok_fit (build_response enc schema rows)"
  by (auto simp: ok_fit_def local_fit_def local_of_def rows_fit_def list_all_iff dest!: build_response_Inr)

lemma catalog_fit [shape]:
  "ok_fit (empty_composite_fields enc)" "ok_fit (empty_enum_labels enc)" "ok_fit (empty_pg_range enc)"
  "ok_fit (respond_pg_namespace enc)" "ok_fit (respond_type_loading enc)"
  by (simp_all add: empty_composite_fields_def empty_enum_labels_def empty_pg_range_def respond_pg_namespace_def
      respond_type_loading_def build_response_fit rows_fit_def namespace_rows_def pg_type_schema_def entry_to_row_def
      Let_def list_all_iff)

lemma dynamic_fit [shape]: "ok_fit (respond_pg_class enc get_all)" "ok_fit (respond_pg_attribute enc oid get_all)"
proof -
  show "ok_fit (respond_pg_class enc get_all)"
    by (cases "get_all pg_class_sql")
       (simp_all add: respond_pg_class_def ok_fit_def [of "Inl _"] build_response_fit rows_fit_def pg_class_row_def Let_def list_all_iff)
  show "ok_fit (respond_pg_attribute enc oid get_all)"
    by (cases "get_all pg_attribute_sql")
       (simp_all add: respond_pg_attribute_def ok_fit_def [of "Inl _"] build_response_fit rows_fit_def pg_attribute_row_def Let_def list_all_iff)
qed

lemma handle_catalog_fit [shape]: "handle_catalog_query enc refs = Some r \<Longrightarrow> ok_fit r"
  by (auto simp: handle_catalog_query_def shape split: if_splits)

lemma handle_dynamic_fit [shape]: "handle_dynamic_catalog_query enc oid get_all refs = Some r \<Longrightarrow> ok_fit r"
  by (auto simp: handle_dynamic_catalog_query_def shape split: if_splits)

section \<open>Intercepts\<close>

definition ok_local :: "local_response list pg_result \<Rightarrow> bool" where
  "ok_local r = (\<forall>rs. r = Inr rs \<longrightarrow> (\<exists>x. rs = [x] \<and> local_fit x))"

lemma single_fit [shape]: "ok_local (single_text_response enc col v)" "ok_local (single_bool_response enc col b)"
  by (auto simp: single_text_response_def single_bool_response_def ok_local_def Let_def local_fit_def rows_fit_def split: option.splits)

lemma execution_fit [shape]: "ok_local (Inr [Execution tag])"
  by (simp add: ok_local_def local_fit_def)

lemma local_of_fit [shape]: "ok_fit r \<Longrightarrow> ok_local (map_ok (map local_of) r)"
  by (cases r) (auto simp: ok_fit_def ok_local_def map_ok_def list_all_iff)

lemma empty_query_fit [shape]: "ok_local (empty_query_response pq)"
  by (simp add: empty_query_response_def ok_local_def Let_def local_fit_def rows_fit_def)

lemma show_fit [shape]: "ok_local (intercept_show enc t)"
  by (simp add: intercept_show_def Let_def shape)

lemma server_functions_fit [shape]: "intercept_server_functions enc lib pq cat sch = Some r \<Longrightarrow> ok_local r"
  by (auto simp: intercept_server_functions_def shape split: if_splits option.splits)

lemma missing_fit [shape]: "intercept_missing_information_schema lib pq = Some r \<Longrightarrow> ok_local r"
  by (auto simp: intercept_missing_information_schema_def shape split: if_splits)

lemma try_intercept_fit: "try_intercept enc lib query pq cat sch tls = Some r \<Longrightarrow> ok_local r"
  by (auto simp: try_intercept_def Let_def shape split: if_splits option.splits)

section \<open>The pipeline\<close>

lemma single_statement_shape:
  assumes "process_single_statement env query tc cfg slot fmt tls s g = Some (Inr rs, s', g')"
  shows "\<exists>x. rs = [x] \<and> well_shaped fmt x \<and> (\<forall>info. x \<noteq> ErrorResponse info)"
proof -
  let ?lib = "pe_lib env" and ?pq = "parsed_query_new (pe_lib env) query"
  let ?sql = "rewrite_sql ?lib (case rewrite_info_schema_columns ?lib query ?pq of Some q \<Rightarrow> q | None \<Rightarrow> query)"
  let ?ti = "try_intercept (pe_enc env) ?lib query ?pq (trino_catalog cfg) (trino_schema cfg) tls"
  let ?dy = "handle_dynamic_catalog_query (pe_enc env) (pe_oid env) (\<lambda>q. fst (pe_get_all env tc q s)) (references_table ?lib ?pq)"
  let ?ex = "execute_trino_query (pe_svc env tc) ?sql slot fmt s g"
  consider ls where "?ti = Some (Inr ls)" "rs = map Local ls"
    | ds where "?dy = Some (Inr ds)" "rs = map (Local \<circ> local_of) ds"
    | "rs = [Local (Execution ''OK'')]"
    | schema st where "?ex = Some (Inr (schema, st), s', g')" "schema \<noteq> []" "rs = [RowStream schema st]"
    using assms
    by (auto simp: process_single_statement_def Let_def map_ok_def split: option.splits bind_splits sum.splits if_splits)
  then show ?thesis
  proof cases
    case (1 ls)
    then show ?thesis using try_intercept_fit [OF 1(1)] by (auto simp: ok_local_def well_shaped_def)
  next
    case (2 ds)
    then show ?thesis using handle_dynamic_fit [OF 2(1)] by (auto simp: ok_fit_def well_shaped_def)
  next
    case 3
    then show ?thesis by (simp add: well_shaped_def local_fit_def)
  next
    case (4 schema st)
    then show ?thesis by (auto simp: well_shaped_def elim: execute_Inr_stream)
  qed
qed

lemma batch_shape:
  assumes "process_batch env tc cfg slot fmt tls stmts out s g = Some (Inr rs, s', g')" and "list_all (well_shaped fmt) out"
  shows "list_all (well_shaped fmt) rs \<and> length rs \<le> length out + length stmts \<and> (stmts \<noteq> [] \<longrightarrow> length out < length rs)"
  using assms
proof (induction stmts arbitrary: out s g)
  case (Cons stmt stmts)
  obtain r1 s1 g1 where one: "process_single_statement env stmt tc cfg slot fmt tls s g = Some (r1, s1, g1)"
    using Cons.prems by (auto split: bind_splits)
  show ?case
  proof (cases r1)
    case (Inl e)
    with Cons.prems one show ?thesis by (cases e) (auto simp: well_shaped_def)
  next
    case (Inr xs)
    from single_statement_shape [OF one [unfolded Inr]] obtain x where x: "xs = [x]" "well_shaped fmt x" by blast
    with Inr Cons.prems one have "process_batch env tc cfg slot fmt tls stmts (out @ [x]) s1 g1 = Some (Inr rs, s', g')" by simp
    from Cons.IH [OF this] Cons.prems(2) x(2) show ?thesis by (cases stmts) (use \<open>process_batch _ _ _ _ _ _ stmts _ _ _ = _\<close> in auto)
  qed
qed simp

lemma split_nonempty: "split_statements lib query \<noteq> []"
  by (auto simp: split_statements_def split: option.splits)

lemma process_query_shape:
  assumes "process_query env query tc cfg slot fmt tls s g = Some (Inr rs, s', g')"
  shows "rs \<noteq> [] \<and> list_all (well_shaped fmt) rs \<and> length rs \<le> length (split_statements (pe_lib env) query)"
proof (cases "length (split_statements (pe_lib env) query) \<le> 1")
  case True
  with assms have "process_single_statement env query tc cfg slot fmt tls s g = Some (Inr rs, s', g')"
    by (simp add: process_query_def)
  from single_statement_shape [OF this] split_nonempty [of "pe_lib env" query] show ?thesis by (auto simp: Suc_le_eq)
next
  case False
  with assms have "process_batch env tc cfg slot fmt tls (split_statements (pe_lib env) query) [] s g = Some (Inr rs, s', g')"
    by (simp add: process_query_def)
  from batch_shape [OF this] split_nonempty [of "pe_lib env" query] show ?thesis by auto
qed

section \<open>Properties\<close>

text \<open>C14. Responses are well typed: whatever the message, the reply to it is not empty, has at most one
  response per statement, and every response in it has the shape it announces: rows made by the gateway
  have exactly one value per announced field, and a row stream carries the very schema that was
  announced, built from its columns in the requested formats. In particular the extended handler never
  fails for want of a response.\<close>

theorem responses_well_shaped:
  assumes "process_query env query tc cfg slot fmt tls s g = Some (r, s', g')"
  shows "(\<forall>rs. r = Inr rs \<longrightarrow>
      rs \<noteq> [] \<and> length rs \<le> length (split_statements (pe_lib env) query) \<and> list_all (well_shaped fmt) rs)
    \<and> (\<forall>e. fst (first_response (r, s', g')) = Inl e \<longrightarrow> r = Inl e)"
proof (cases r)
  case (Inr rs)
  with process_query_shape [of env query tc cfg slot fmt tls s g rs s' g'] assms show ?thesis
    by (cases rs) (auto simp: first_response_def)
qed (simp add: first_response_def)

theorem responses_well_shaped_witness:
  "\<exists>r s' g'. process_query sample_pipe ''SELECT n'' sample_tc default_config (Some 0) None True 0 init_gateway = Some (Inr [r], s', g')
     \<and> well_shaped None r"
proof -
  note run = sample_process [of sample_tc None True 0 init_gateway]
  from responses_well_shaped [OF run] have "well_shaped None (RowStream (build_pg_schema sample_columns None) (sample_stream None))"
    by simp
  with run show ?thesis by blast
qed

end
