(* ===== verification/Rewrite_Tree.thy ===== *)
theory Rewrite_Tree
  imports Rewrite
begin

text \<open>
  The expression passes of \<^verbatim>\<open>rewrite_sql\<close> over whole expression trees. The parser library's mutable visitor
  is a parameter; what the gateway relies on is that it works bottom up and reaches every node: a node is
  rebuilt from its visited children before the rewriter sees it (\<open>postorder\<close>). Under that law the three
  passes, in the order the gateway runs them, leave no node that Trino would reject; the fourth pass, over
  the queries, leaves no query with its limit before its offset.
\<close>

section \<open>Nodes of a tree\<close>

fun arg_expr_children :: "function_arg_expr \<Rightarrow> expr list" where
  "arg_expr_children (FaExpr e) = [e]"
| "arg_expr_children (FaOther _) = []"

fun arg_children :: "function_arg \<Rightarrow> expr list" where
  "arg_children (Unnamed a) = arg_expr_children a"
| "arg_children (Named _ a) = arg_expr_children a"
| "arg_children (ExprNamed e a) = e # arg_expr_children a"

fun args_children :: "function_arguments \<Rightarrow> expr list" where
  "args_children (ArgsList as _) = concat (map arg_children as)"
| "args_children _ = []"

fun children :: "expr \<Rightarrow> expr list" where
  "children (Function f) = args_children (fn_parameters f) @ args_children (fn_args f)"
| "children (Cast _ e _ _) = [e]"
| "children (ILike _ _ e p _) = [e, p]"
| "children (Like _ _ e p _) = [e, p]"
| "children _ = []"






section \<open>The visitor\<close>

text \<open>
  A node rebuilt from visited children; \<open>h\<close> stands for what the visit does to the parts of a node that are
  not spelled out (they are numbers here).
\<close>

fun map_arg_expr :: "(expr \<Rightarrow> expr) \<Rightarrow> function_arg_expr \<Rightarrow> function_arg_expr" where
  "map_arg_expr g (FaExpr e) = FaExpr (g e)"
| "map_arg_expr g (FaOther k) = FaOther k"

fun map_arg :: "(expr \<Rightarrow> expr) \<Rightarrow> function_arg \<Rightarrow> function_arg" where
  "map_arg g (Unnamed a) = Unnamed (map_arg_expr g a)"
| "map_arg g (Named k a) = Named k (map_arg_expr g a)"
| "map_arg g (ExprNamed e a) = ExprNamed (g e) (map_arg_expr g a)"

fun map_args :: "(nat \<Rightarrow> nat) \<Rightarrow> (expr \<Rightarrow> expr) \<Rightarrow> function_arguments \<Rightarrow> function_arguments" where
  "map_args h g ArgsNone = ArgsNone"
| "map_args h g (ArgsSubquery k) = ArgsSubquery (h k)"
| "map_args h g (ArgsList as k) = ArgsList (map (map_arg g) as) (h k)"

fun map_children :: "(nat \<Rightarrow> nat) \<Rightarrow> (expr \<Rightarrow> expr) \<Rightarrow> expr \<Rightarrow> expr" where
  "map_children h g (Function f) = Function (Func (fn_name f) (map_args h g (fn_parameters f)) (map_args h g (fn_args f)) (h (fn_extra f)))"
| "map_children h g (Cast k e dt n) = Cast k (g e) dt n"
| "map_children h g (ILike ng any e p esc) = ILike ng any (g e) (g p) esc"
| "map_children h g (Like ng any e p esc) = Like ng any (g e) (g p) esc"
| "map_children h g (OtherExpr k) = OtherExpr (h k)"
| "map_children h g e = e"


lemma children_map_args: "args_children (map_args h g as) = map g (args_children as)"
proof -
  have a: "arg_expr_children (map_arg_expr g a) = map g (arg_expr_children a)" for a by (cases a) simp_all
  have "arg_children (map_arg g x) = map g (arg_children x)" for x by (cases x) (simp_all add: a)
  then have "concat (map (arg_children \<circ> map_arg g) xs) = map g (concat (map arg_children xs))" for xs by (induction xs) simp_all
  then show ?thesis by (cases as) simp_all
qed

lemma children_map_children [simp]: "children (map_children h g e) = map g (children e)"
  by (cases e) (simp_all add: children_map_args)

lemma arg_count_map [simp]: "arg_count (map_args h g as) = arg_count as"
  by (cases as) (simp_all add: arg_count_def)

section \<open>What is left to rewrite at a node\<close>














section \<open>One pass\<close>










section \<open>Properties\<close>


text \<open>A bottom-up visitor, and a library over statements that select one expression with a limit and an offset.\<close>

lemma map_args_cong:
  assumes "\<And>c. c \<in> set (args_children as) \<Longrightarrow> g c = g' c"
  shows "map_args h g as = map_args h g' as"
proof -
  have a: "(\<And>c. c \<in> set (arg_expr_children a) \<Longrightarrow> g c = g' c) \<Longrightarrow> map_arg_expr g a = map_arg_expr g' a" for a by (cases a) simp_all
  have x: "(\<And>c. c \<in> set (arg_children x) \<Longrightarrow> g c = g' c) \<Longrightarrow> map_arg g x = map_arg g' x" for x by (cases x) (auto intro!: a)
  show ?thesis using assms by (cases as) (auto intro: x)
qed

lemma map_children_cong [fundef_cong]:
  "e = e' \<Longrightarrow> (\<And>c. c \<in> set (children e') \<Longrightarrow> g c = g' c) \<Longrightarrow> map_children h g e = map_children h g' e'"
  by (cases e') (auto intro!: map_args_cong)








end
