(* ===== verification/Spec2Isabelle.thy ===== *)
theory Spec2Isabelle
  imports Wind_Down Cancel_Window Build_Info Delivery Progress Response_Shape Rewrite_Tree Config_Policy Error_Mapping Server Types_Encode
begin

text \<open>
  A verification library for the PostgreSQL-Trino gateway: a server that speaks the PostgreSQL wire
  protocol to its clients and forwards their queries to Trino over HTTP. The Rust crate under
  \<^verbatim>\<open>src/src/\<close> is translated function by function; strings are lists of bytes (\<^verbatim>\<open>str\<close>), machine integers
  are words, fallible functions return a sum with the error on the left.

  \<^bold>\<open>Parts of the program and their theories.\<close>

  \<^item> \<^verbatim>\<open>Gateway_Prelude\<close>: bytes, UTF-8, the string and integer operations of the Rust standard library the
    code uses (search, trimming, case mapping, formatting and parsing), the error types of the wire
    library, and the collections of facts \<^verbatim>\<open>rust_str\<close> and \<^verbatim>\<open>rust_num\<close>. The locale \<^verbatim>\<open>text_codec\<close> is the
    contract of a text form (integers, doubles and the encoder's cells are its interpretations),
    \<^verbatim>\<open>ranked_steps\<close> that of steps which must end.
  \<^item> \<^verbatim>\<open>Error_Mapping\<close> (\<^verbatim>\<open>error_mapping.rs\<close>): SQLSTATE of a Trino error, removal of Java prefixes and stack
    traces, masking of URL hosts, truncation at a character boundary.
  \<^item> \<^verbatim>\<open>Config_Policy\<close> (\<^verbatim>\<open>config.rs\<close>, \<^verbatim>\<open>policy.rs\<close>): the configuration record and the startup policy, with
    the standard library's parser of socket addresses; name resolution is a parameter.
  \<^item> \<^verbatim>\<open>Session\<close> (\<^verbatim>\<open>session.rs\<close>, \<^verbatim>\<open>cancel.rs\<close>, the cache functions of \<^verbatim>\<open>query_extended.rs\<close>): the process-wide
    cancel registry, the cells with the id of the running query, the portal cache. The record \<^verbatim>\<open>gateway\<close>
    is the shared state: registry, cells and the process id counter. The locales \<^verbatim>\<open>keyed_store\<close> and
    \<^verbatim>\<open>sized_store\<close> are the interface of the two maps; registry and cache are their interpretations.
  \<^item> \<^verbatim>\<open>Startup\<close> (\<^verbatim>\<open>startup.rs\<close>): server parameters, key allocation, the startup handler.
  \<^item> \<^verbatim>\<open>Connection_Lifecycle\<close>: the life of connections over the shared state as a step relation, the
    invariant that ties the registry to the live connections, and what a cancel request can reach.
  \<^item> \<^verbatim>\<open>Json_Model\<close>, \<^verbatim>\<open>Float_Text\<close>: JSON values, and parsing and printing of doubles as the standard library
    does it. \<^verbatim>\<open>Float_Roundtrip\<close> shows that printing and parsing are inverse on all doubles: rounding is
    characterised over the reals, and eighteen digits are always within a quarter of the last place.
  \<^item> \<^verbatim>\<open>Types_Map\<close>, \<^verbatim>\<open>Types_Encode\<close> (\<^verbatim>\<open>types.rs\<close>): Trino type names to PostgreSQL types; JSON cells to text
    and binary values, dates and times, wire forms. The date, decimal and time zone libraries are
    parameters (\<^verbatim>\<open>conv\<close>).
  \<^item> \<^verbatim>\<open>Catalog\<close> (\<^verbatim>\<open>catalog/\<close>): the static catalog tables, synthetic object ids, tables made from Trino's
    information schema.
  \<^item> \<^verbatim>\<open>Query_Inspection\<close> (\<^verbatim>\<open>query_inspection.rs\<close>), \<^verbatim>\<open>Rewrite\<close> (\<^verbatim>\<open>rewrite/\<close>): syntax trees with the constructors
    the gateway names, the inspection predicates, the four rewriters. Parsing, printing and traversal
    belong to the SQL library and are fields of the record \<^verbatim>\<open>sql_lib\<close>. \<^verbatim>\<open>Rewrite_Tree\<close> follows the passes
    over whole expression trees and nested queries, under the law that the library's visitors work bottom up.
  \<^item> \<^verbatim>\<open>Intercept\<close> (\<^verbatim>\<open>intercept.rs\<close>, \<^verbatim>\<open>info_schema.rs\<close>): statements answered without Trino.
  \<^item> \<^verbatim>\<open>Trino_Stream\<close> (\<^verbatim>\<open>trino_stream.rs\<close>): submission of a query, polling for columns, the lazy row stream
    with its guard. Trino is a record of two functions over a state of its own (\<^verbatim>\<open>trino_service\<close>).
  \<^item> \<^verbatim>\<open>Query_Pipeline\<close> (\<^verbatim>\<open>query_pipeline.rs\<close>, \<^verbatim>\<open>query_simple.rs\<close>, \<^verbatim>\<open>query_extended.rs\<close>): routing of a statement,
    batches, and the handlers of the simple and the extended protocol.
  \<^item> \<^verbatim>\<open>Server\<close> (\<^verbatim>\<open>server.rs\<close>, \<^verbatim>\<open>tls.rs\<close>, \<^verbatim>\<open>main.rs\<close>): the accept loop with its permits, loading of
    certificates, start of the process, and its drain as the two timed join loops of \<^verbatim>\<open>main.rs\<close> over the
    times at which the runtime ends the tasks.
  \<^item> \<^verbatim>\<open>Session_Protocol\<close> (\<^verbatim>\<open>handler.rs\<close>): the factory of the handlers, and the messages of one connection as a
    step relation that takes every handler from the factory. The contract of a handler is the locale
    \<^verbatim>\<open>session_handler\<close>; each of the four handlers, and the factory's dispatch, is an interpretation.
  \<^item> \<^verbatim>\<open>Gateway_System\<close>: the whole process after its start: accept loop, handshakes, messages, streams, cancel
    requests and closes of all connections over the shared state, for one deployment (configuration,
    libraries, Trino). A connection is a task of the accept loop with its client and its streams.
    \<^verbatim>\<open>Wind_Down\<close> takes the steps that end work and shows that they always lead back to an empty gateway;
    \<^verbatim>\<open>Cancel_Window\<close> takes the steps of the others while a connection streams and shows that its query can be
    cancelled all the while.
  \<^item> \<^verbatim>\<open>Build_Info\<close> (\<^verbatim>\<open>build.rs\<close>): the build metadata and the version the process logs.
  \<^item> \<^verbatim>\<open>Row_Conformance\<close>, \<^verbatim>\<open>Delivery\<close>: the typing of encoded rows and the agreement of the two formats; from a
    statement to the rows its client receives, in both protocols.
  \<^item> \<^verbatim>\<open>Response_Shape\<close>, \<^verbatim>\<open>Progress\<close>: the typing of responses and termination, across the pipeline.

  \<^bold>\<open>How the parts interact.\<close> \<^verbatim>\<open>main\<close> checks the policy and starts the accept loop; every accepted connection
  runs the startup handler, which builds a Trino client, registers a cancel key and creates the
  connection's state. The query handlers send every statement through the pipeline: intercepts and the
  catalog answer locally, everything else is rewritten and submitted by the streaming bridge, which
  records the query's id in the connection's cell. A cancel request arrives on another connection and
  finds the cell through the registry. The connection's \<^verbatim>\<open>Drop\<close> removes its registration.

  \<^bold>\<open>What the lemmas show.\<close> Startup and policy: no password is asked for or sent in cleartext off the host,
  and a session exists only after Trino accepted the credentials. Life cycle: a cancel request reaches
  the query of its own connection and nothing else, under every interleaving; the whole system with its
  handlers, caches and streams refines this life cycle (\<^verbatim>\<open>Gateway_System\<close>), every session in it is
  authorised as the user its connection announced, the registry holds no more than the live sessions, winding down gives back every permit, key
  and task, and a query is cancellable while its rows are streamed. Delivery: a forwarded statement's
  rows arrive once, in order, typed as announced. Streams: every row is
  delivered once and in order, the query id is recorded and cleared. Extended protocol: Describe and
  Execute run a statement once, stale responses are discarded, the cache is bounded. Types: binary
  integers are the value of the JSON number or refused, arrays map by PostgreSQL's own tables, the text and the binary form of a cell agree, doubles, offsets, fractions
  and wire forms are read back exactly, totality of the outcomes. Rewriting: row windows and patterns keep their meaning
  (against independent readings of \<open>FETCH\<close> and of the two dialects' \<open>LIKE\<close>), and the PostgreSQL casts, calls and
  clauses the README names are left at no depth. Errors: messages are bounded, valid
  UTF-8, without tab-indented stack frames; URL hosts are replaced. Server: permits and tasks balance, shutdown and drain end.
  Shape and progress: responses fit the schemas they announce, and every handler returns when Trino's
  page chains end.

  \<^bold>\<open>Loops and bounds.\<close> The loops that follow Trino's page addresses are \<^verbatim>\<open>partial_function (option)\<close>, so that
  not returning is \<^verbatim>\<open>None\<close>; \<^verbatim>\<open>Progress\<close> proves that they return when the chain of pages ends. All other
  recursion is structural or has a termination proof. The printer of doubles searches up to 18
  significant digits and 400 leading zeros; \<^verbatim>\<open>Float_Roundtrip\<close> proves that both are enough for every double.
  The process id is a 32-bit word; guarantees on cancel keys hold for the first \<open>2^32\<close> connections and
  say so.

  \<^bold>\<open>Not modelled.\<close> \<^verbatim>\<open>lib.rs\<close> (the list of modules), log lines (but that of a joined task and the
  version), and the parsing of command-line flags. The wire library, the SQL parser, the Trino client, TLS
  and the date libraries are parameters. Character case mapping covers the non-ASCII characters that
  map into ASCII and leaves other non-ASCII characters alone; patterns of \<open>LIKE\<close> are read bytewise, and what
  is shown of them is for ASCII. The submission of a statement with its polling for columns is one step, so
  that a cancel request in between is not expressed. Result data Trino spools instead of sending it inline
  yields no rows, in the code and in what is stated of deliveries.
\<close>

section \<open>Properties that span components\<close>

text \<open>C3. The gateway refines the life cycle of connections: every reachable state of the whole system, under
  any interleaving of accepts, handshakes, messages of any kind, stream polls and drops, cancel requests,
  closes and shutdown, abstracts to a reachable state of the life cycle, every further step of the system
  is a sequence of steps of the life cycle, and every connection keeps its invariant (its cache in order,
  all its streams bound to its own cell, none before its startup is finished). The bound is that of the
  32-bit process id: \<open>next_slot\<close> counts the sessions established.\<close>

theorem gateway_refines_lifecycle:
  assumes "system_reach D S" and "next_slot (sy_gw S) \<le> 2 ^ 32"
  shows "life_reach (abs_world S) \<and> list_all conn_ok (sy_conns S)
    \<and> (\<forall>S'. system_step D S S' \<and> next_slot (sy_gw S') \<le> 2 ^ 32 \<longrightarrow> life_step\<^sup>*\<^sup>* (abs_world S) (abs_world S'))"
proof -
  note sim = system_reach_simulates [OF assms]
  note ok = system_reach_ok [OF assms(1)]
  have "life_step\<^sup>*\<^sup>* (abs_world S) (abs_world S')" if "system_step D S S'" "next_slot (sy_gw S') \<le> 2 ^ 32" for S'
    by (rule system_step_simulates [OF that(1) _ ok]) (use sim that(2) in \<open>simp_all add: abs_world_def\<close>)
  with sim ok show ?thesis by blast
qed

theorem gateway_refines_lifecycle_witness:
  "\<forall>cv. \<exists>S. system_reach (sample_deployment default_config cv) S \<and> length (sy_conns S) = 1 \<and> life_reach (abs_world S)"
proof
  fix cv
  obtain S c where S: "system_reach (sample_deployment default_config cv) S" "sy_conns S = [c]" "next_slot (sy_gw S) = 1"
    using sample_session_reached [of cv] by blast
  from gateway_refines_lifecycle [OF S(1)] S
  show "\<exists>S. system_reach (sample_deployment default_config cv) S \<and> length (sy_conns S) = 1 \<and> life_reach (abs_world S)"
    by (intro exI [of _ S]) simp
qed

text \<open>C4. Every live session is authorised. After a successful start, in every reachable state of the system,
  a connection with a session has the deployment's configuration and a Trino client for the
  configured host. With authentication, that client acts as the user the connection announced in its
  startup packet and logs in with that user's name, Trino accepted its credentials, they go to Trino over
  TLS or by the operator's opt-in, and the connection itself is encrypted or every address the listener can
  bind is a loopback address. Without authentication the Trino client carries the configured user and no
  password.\<close>

theorem live_sessions_authorised:
  assumes "main_start resolve lib env_var bind_error signal_error (dp_config D) = Inr st" and "system_reach D S"
    and "c \<in> set (sy_conns S)" and "session_state (tk_client c) = Some cs"
  shows "cs_config cs = dp_config D \<and> cl_host (cs_trino_client cs) = trino_host (dp_config D)
    \<and> (if auth (dp_config D)
       then dp_accepts D (cs_trino_client cs)
          \<and> cl_user (cs_trino_client cs) = session_user (tk_client c)
          \<and> map_option fst (cl_auth (cs_trino_client cs)) = Some (session_user (tk_client c))
          \<and> (cl_secure (cs_trino_client cs) \<or> cl_auth_http_insecure (cs_trino_client cs))
          \<and> (is_secure (tk_client c) \<or> (\<forall>ip \<in> set (bound_addresses resolve (listen_addr (dp_config D))). is_loopback ip))
       else cl_auth (cs_trino_client cs) = None \<and> cl_user (cs_trino_client cs) = trino_user (dp_config D))"
proof -
  obtain posture where v: "validate resolve (dp_config D) = Inr posture"
    using assms(1) by (auto simp: main_start_def split: sum.splits)
  have "client_authorised D (tk_client c)"
    using system_reach_authorised [OF assms(2)] assms(3) by (simp add: list_all_iff)
  with validate_safe [OF v] assms(4) show ?thesis
    by (auto simp: client_authorised_def client_allowed_def may_authenticate_def tls_required_eq_has_tls)
qed

theorem live_sessions_authorised_witness:
  "\<forall>cv. \<exists>S c cs. system_reach (sample_deployment (default_config\<lparr>auth := True, trino_ssl := True\<rparr>) cv) S
     \<and> sy_conns S = [c] \<and> session_state (tk_client c) = Some cs
     \<and> map_option fst (cl_auth (cs_trino_client cs)) = Some ''alice'' \<and> cl_user (cs_trino_client cs) = ''alice''
     \<and> (cl_secure (cs_trino_client cs) \<or> cl_auth_http_insecure (cs_trino_client cs))"
proof
  fix cv
  let ?cfg = "default_config\<lparr>auth := True, trino_ssl := True\<rparr>"
  have v: "validate (\<lambda>_. Inl []) ?cfg = Inr CleartextLoopback" by code_simp
  have "\<exists>st. main_start (\<lambda>_. Inl []) sample_tls (\<lambda>_. None) (\<lambda>_. None) None (dp_config (sample_deployment ?cfg cv)) = Inr st"
    by (simp add: main_start_def sample_deployment_def v Let_def) (simp add: default_config_def)
  then obtain st where m: "main_start (\<lambda>_. Inl []) sample_tls (\<lambda>_. None) (\<lambda>_. None) None (dp_config (sample_deployment ?cfg cv)) = Inr st"
    by blast
  obtain S c cs where S: "system_reach (sample_deployment ?cfg cv) S" "sy_conns S = [c]" "session_state (tk_client c) = Some cs"
      "session_user (tk_client c) = ''alice''"
    using sample_password_session [of cv] by blast
  from live_sessions_authorised [OF m S(1) _ S(3)] S show "\<exists>S c cs. system_reach (sample_deployment ?cfg cv) S
     \<and> sy_conns S = [c] \<and> session_state (tk_client c) = Some cs
     \<and> map_option fst (cl_auth (cs_trino_client cs)) = Some ''alice'' \<and> cl_user (cs_trino_client cs) = ''alice''
     \<and> (cl_secure (cs_trino_client cs) \<or> cl_auth_http_insecure (cs_trino_client cs))"
    by (intro exI [of _ S] exI [of _ c] exI [of _ cs]) (simp add: sample_deployment_def)
qed

text \<open>C6. The cancel registry does not leak: in every reachable state it holds exactly one entry per live
  session, so at most one per connection being served, of which there are never more than the configured
  number; each connection belongs to its own task of the accept loop.\<close>

theorem registry_bounded:
  assumes "system_reach D S" and "next_slot (sy_gw S) \<le> 2 ^ 32"
  shows "dom (registry (sy_gw S)) = cs_cancel_key ` set (sessions S)
    \<and> card (dom (registry (sy_gw S))) = length (sessions S) \<and> length (sessions S) \<le> length (sy_conns S)
    \<and> length (sy_conns S) \<le> max_connections (dp_config D) \<and> distinct (map tk_id (sy_conns S))"
proof -
  have inv: "life_inv (abs_world S)" using system_reach_simulates [OF assms] by blast
  note srv = system_reach_server [OF assms(1)]
  have "length (sy_conns S) = length (running (sy_server S))"
    using arg_cong [OF conjunct2 [OF srv], of size] by simp
  moreover have "serve_inv (max_connections (dp_config D)) (sy_server S)" using serve_reach_inv srv by blast
  moreover have "distinct (running (sy_server S)) \<longrightarrow> distinct (map tk_id (sy_conns S))"
    using srv by (metis mset_eq_imp_distinct_iff)
  ultimately show ?thesis
    using registry_card [OF inv] sessions_le_conns [of S] by (auto simp: serve_inv_def)
qed

theorem registry_bounded_witness:
  "\<forall>cv. \<exists>S. system_reach (sample_deployment default_config cv) S \<and> length (sy_conns S) = 1
     \<and> card (dom (registry (sy_gw S))) = 1"
proof
  fix cv
  obtain S c cs where S: "system_reach (sample_deployment default_config cv) S" "sy_conns S = [c]"
      "session_state (tk_client c) = Some cs" "next_slot (sy_gw S) = 1"
    using sample_session_reached [of cv] by blast
  from registry_bounded [OF S(1)] S
  show "\<exists>S. system_reach (sample_deployment default_config cv) S \<and> length (sy_conns S) = 1 \<and> card (dom (registry (sy_gw S))) = 1"
    by (intro exI [of _ S]) (simp add: sessions_def session_of_def)
qed

end
